theory Spec2Isabelle
  imports Main
begin

unbundle bit_operations_syntax

section \<open>The packed position of bitboard.py\<close>

text \<open>
  A position is the Python integer \<open>BitBoard._bits\<close>: 64 nibbles of board (bit 3 of a nibble
  is the colour, 1 for white; bits 0-2 the piece kind), bit 256 the side to move (1 for
  white), bits 257-260 the castling rights (k, q, K, Q from the lowest bit) and bits 261-266
  the en-passant square (0 for none). Python integers are unbounded, so the model is
  \<open>int\<close> with the bit operations of HOL; squares, pieces and packed moves are \<open>int\<close> too.
  Square \<open>i\<close> is row \<open>i div 8\<close> (row 0 is rank 8) and column \<open>i mod 8\<close> (column 0 is file a).
\<close>

definition EMPTY :: int where "EMPTY = 0"
definition PAWN :: int where "PAWN = 1"
definition KNIGHT :: int where "KNIGHT = 2"
definition BISHOP :: int where "BISHOP = 3"
definition ROOK :: int where "ROOK = 4"
definition QUEEN :: int where "QUEEN = 5"
definition KING :: int where "KING = 6"

definition BOARD_SIZE :: int where "BOARD_SIZE = 8"
definition NUM_SQUARES :: int where "NUM_SQUARES = 64"
definition MAX_INDEX :: int where "MAX_INDEX = 255"
definition PIECE_SIZE :: int where "PIECE_SIZE = 4"
definition PIECE_MASK :: int where "PIECE_MASK = 15"
definition CASTLES_MASK :: int where "CASTLES_MASK = 15"
definition ENPASSANT_MASK :: int where "ENPASSANT_MASK = 63"

definition BOARD_START :: int where "BOARD_START = 0"
definition SIDE_TO_MOVE_START :: nat where "SIDE_TO_MOVE_START = 256"
definition CASTLES_START :: nat where "CASTLES_START = 257"
definition ENPASSANT_START :: nat where "ENPASSANT_START = 261"

definition DEST_SQ :: nat where "DEST_SQ = 6"
definition SRC_PIECE :: nat where "SRC_PIECE = 12"
definition DEST_PIECE :: nat where "DEST_PIECE = 15"
definition PROMO_PIECE :: nat where "PROMO_PIECE = 18"
definition MOVE_META :: nat where "MOVE_META = 21"

definition MOVE_SQ_MASK :: int where "MOVE_SQ_MASK = 63"
definition MOVE_PIECE_MASK :: int where "MOVE_PIECE_MASK = 7"
definition MOVE_META_MASK :: int where "MOVE_META_MASK = 15"

definition CAPTURE :: int where "CAPTURE = 1"
definition CASTLE :: int where "CASTLE = 2"
definition CHECK :: int where "CHECK = 4"
definition PROMOTION :: int where "PROMOTION = 8"

lemmas piece_defs = EMPTY_def PAWN_def KNIGHT_def BISHOP_def ROOK_def QUEEN_def KING_def

lemmas layout_defs = BOARD_SIZE_def NUM_SQUARES_def MAX_INDEX_def PIECE_SIZE_def
  PIECE_MASK_def CASTLES_MASK_def ENPASSANT_MASK_def BOARD_START_def
  SIDE_TO_MOVE_START_def CASTLES_START_def ENPASSANT_START_def

lemmas move_defs = DEST_SQ_def SRC_PIECE_def DEST_PIECE_def PROMO_PIECE_def MOVE_META_def
  MOVE_SQ_MASK_def MOVE_PIECE_MASK_def MOVE_META_MASK_def
  CAPTURE_def CASTLE_def CHECK_def PROMOTION_def

text \<open>
  The exceptions the modelled functions can raise. \<open>PieceNotFound\<close> is the plain
  \<open>Exception("Piece not found: ...")\<close> of \<open>findPiece\<close>; \<open>Diverges\<close> stands for a ray loop
  whose state repeats, so that the Python loop would never end (it needs a direction
  that does not move, which no direction table holds).
\<close>

datatype error = IndexError | KeyError | ValueError | UnboundLocalError | PieceNotFound | Diverges

definition ebind :: "error + 'a \<Rightarrow> ('a \<Rightarrow> error + 'b) \<Rightarrow> error + 'b" where
  "ebind m f = (case m of Inl e \<Rightarrow> Inl e | Inr x \<Rightarrow> f x)"

lemma ebind_Inl [simp]: "ebind (Inl e) f = Inl e"
  by (simp add: ebind_def)

lemma ebind_Inr [simp]: "ebind (Inr x) f = f x"
  by (simp add: ebind_def)

lemma ebind_cong [fundef_cong]:
  "m = m' \<Longrightarrow> (\<And>x. m' = Inr x \<Longrightarrow> f x = f' x) \<Longrightarrow> ebind m f = ebind m' f'"
  by (cases m') (simp_all add: ebind_def)

lemma ebind_eq_Inr: "ebind m f = Inr y \<longleftrightarrow> (\<exists>x. m = Inr x \<and> f x = Inr y)"
  by (cases m) simp_all

subsection \<open>Static helpers\<close>

definition indexPlusCoord :: "int \<Rightarrow> int \<times> int \<Rightarrow> int \<times> bool" where
  "indexPlusCoord index coord =
     (let result = index + fst coord * BOARD_SIZE + snd coord in
      if result < 0 \<or> result > 63 then (- 1, True)
      else let col = index mod BOARD_SIZE + snd coord in (result, col < 0 \<or> col > 7))"

text \<open>
  \<open>getPiece\<close>, \<open>removePiece\<close> and \<open>addPiece\<close> shift by a board address. Python raises
  ValueError on a negative shift count; every caller below either passes a square it has
  checked to be on the board or tests the sign first (see \<open>makeMove\<close>), so the shift is
  taken with \<open>nat\<close>.
\<close>

definition getPiece :: "int \<Rightarrow> int \<Rightarrow> int" where
  "getPiece bits index =
     (let shift = nat (PIECE_SIZE * index) in
      drop_bit shift (bits AND push_bit shift PIECE_MASK))"

definition removePiece :: "int \<Rightarrow> int \<Rightarrow> int" where
  "removePiece bits address = bits AND NOT (push_bit (nat address) PIECE_MASK)"

definition addPiece :: "int \<Rightarrow> int \<Rightarrow> int \<Rightarrow> int" where
  "addPiece bits address piece = removePiece bits address OR push_bit (nat address) piece"

definition pieceType :: "int \<Rightarrow> int" where
  "pieceType piece = piece AND 7"

definition pieceSide :: "int \<Rightarrow> int" where
  "pieceSide piece = drop_bit 3 (piece AND 8)"

definition areEnemies :: "int \<Rightarrow> int \<Rightarrow> bool" where
  "areEnemies p1 p2 \<longleftrightarrow> pieceSide p1 \<noteq> pieceSide p2"

definition isBackRank :: "int \<Rightarrow> bool" where
  "isBackRank index \<longleftrightarrow> index < 8 \<or> index \<ge> 56"

subsection \<open>Getters\<close>

definition getCastles :: "int \<Rightarrow> int" where
  "getCastles bits = drop_bit CASTLES_START (bits AND push_bit CASTLES_START CASTLES_MASK)"

definition whiteToMove :: "int \<Rightarrow> int" where
  "whiteToMove bits = drop_bit SIDE_TO_MOVE_START (bits AND push_bit SIDE_TO_MOVE_START 1)"

definition sideToMove :: "int \<Rightarrow> int" where
  "sideToMove bits = drop_bit 253 (bits AND push_bit SIDE_TO_MOVE_START 1)"

definition getEnpassant :: "int \<Rightarrow> int" where
  "getEnpassant bits =
     drop_bit ENPASSANT_START (bits AND push_bit ENPASSANT_START ENPASSANT_MASK)"

definition isOpponentPiece :: "int \<Rightarrow> int \<Rightarrow> bool" where
  "isOpponentPiece bits piece \<longleftrightarrow> drop_bit 3 (piece AND 8) \<noteq> whiteToMove bits"

subsection \<open>Text and position codec\<close>

definition isdigit :: "char \<Rightarrow> bool" where
  "isdigit c \<longleftrightarrow> 48 \<le> (of_char c :: nat) \<and> (of_char c :: nat) \<le> 57"

definition islower :: "char \<Rightarrow> bool" where
  "islower c \<longleftrightarrow> 97 \<le> (of_char c :: nat) \<and> (of_char c :: nat) \<le> 122"

definition lower :: "char \<Rightarrow> char" where
  "lower c = (if 65 \<le> (of_char c :: nat) \<and> (of_char c :: nat) \<le> 90
              then char_of ((of_char c :: nat) + 32) else c)"

text \<open>\<open>int(c)\<close> on a one-character string: ValueError unless the character is a digit.\<close>

definition int_of_char :: "char \<Rightarrow> error + int" where
  "int_of_char c = (if isdigit c then Inr (int (of_char c) - 48) else Inl ValueError)"

definition algebraicToIndex :: "string \<Rightarrow> error + int" where
  "algebraicToIndex algebraic =
     (case algebraic of
        f # r # _ \<Rightarrow>
          ebind (int_of_char r) (\<lambda>n.
            Inr (BOARD_SIZE * (8 - n) + int (of_char f) - int (of_char CHR ''a'')))
      | _ \<Rightarrow> Inl IndexError)"

fun split :: "char \<Rightarrow> string \<Rightarrow> string list" where
  "split sep [] = [[]]"
| "split sep (c # cs) =
     (if c = sep then [] # split sep cs
      else (case split sep cs of w # ws \<Rightarrow> (c # w) # ws | [] \<Rightarrow> [[c]]))"

definition pieceMap :: "char \<Rightarrow> int option" where
  "pieceMap c =
     (if c = CHR ''p'' then Some PAWN else if c = CHR ''r'' then Some ROOK
      else if c = CHR ''b'' then Some BISHOP else if c = CHR ''n'' then Some KNIGHT
      else if c = CHR ''q'' then Some QUEEN else if c = CHR ''k'' then Some KING
      else None)"

text \<open>The board loop of \<open>createFromFen\<close>: the state is \<open>(bits, address)\<close>.\<close>

fun fenRow :: "string \<Rightarrow> int \<times> int \<Rightarrow> error + int \<times> int" where
  "fenRow [] st = Inr st"
| "fenRow (c # cs) (bits, address) =
     (if isdigit c then fenRow cs (bits, address + PIECE_SIZE * (int (of_char c) - 48))
      else
        (let player = (if islower c then 0 else 1 :: int) in
         case pieceMap (lower c) of
           None \<Rightarrow> Inl KeyError
         | Some k \<Rightarrow>
             fenRow cs (bits OR push_bit (nat address) (push_bit 3 player OR k),
                        address + PIECE_SIZE)))"

fun fenRows :: "string list \<Rightarrow> int \<times> int \<Rightarrow> error + int \<times> int" where
  "fenRows [] st = Inr st"
| "fenRows (r # rs) st = ebind (fenRow r st) (fenRows rs)"

fun fenCastles :: "string \<Rightarrow> int \<Rightarrow> int" where
  "fenCastles [] castles = castles"
| "fenCastles (c # cs) castles =
     (let tmp = (if islower c then 1 else 4 :: int) in
      fenCastles cs
        (if lower c = CHR ''k'' then castles OR tmp
         else if lower c = CHR ''q'' then castles OR push_bit 1 tmp
         else castles))"

text \<open>
  \<open>createFromFen\<close> reads the fields in order: the board first, then \<open>fenArr[1]\<close>,
  \<open>fenArr[2]\<close> and \<open>fenArr[3]\<close>, each an IndexError when the text has too few fields.
  \<open>fenstring.split(" ")\<close> always has a first element.
\<close>

definition createFromFen :: "string \<Rightarrow> error + int" where
  "createFromFen fenstring =
     (let fenArr = split CHR '' '' fenstring in
      ebind (fenRows (split CHR ''/'' (hd fenArr)) (0, BOARD_START)) (\<lambda>(bits, address).
        if length fenArr < 2 then Inl IndexError
        else
          (let bits = (if fenArr ! 1 = ''w'' then bits OR push_bit SIDE_TO_MOVE_START 1
                       else bits)
           in if length fenArr < 3 then Inl IndexError
              else
                (let bits = bits OR push_bit CASTLES_START (fenCastles (fenArr ! 2) 0)
                 in if length fenArr < 4 then Inl IndexError
                    else if fenArr ! 3 \<noteq> ''-''
                    then ebind (algebraicToIndex (fenArr ! 3))
                           (\<lambda>i. Inr (bits OR push_bit ENPASSANT_START i))
                    else Inr bits))))"

section \<open>Position transition\<close>

definition CASTLE_MOVES :: "int \<Rightarrow> int option" where
  "CASTLE_MOVES move =
     (if move = 4219268 then Some 7        \<comment> \<open>0o20060604: e8g8, black king-side\<close>
      else if move = 4219012 then Some 0   \<comment> \<open>0o20060204: e8c8, black queen-side\<close>
      else if move = 4222908 then Some 63  \<comment> \<open>0o20067674: e1g1, white king-side\<close>
      else if move = 4222652 then Some 56  \<comment> \<open>0o20067274: e1c1, white queen-side\<close>
      else None)"

definition PIECE_MAP :: "char \<Rightarrow> int option" where
  "PIECE_MAP c =
     (if c = CHR ''r'' then Some ROOK else if c = CHR ''b'' then Some BISHOP
      else if c = CHR ''n'' then Some KNIGHT else if c = CHR ''q'' then Some QUEEN
      else None)"

text \<open>
  \<open>castleLogic self move piece bits\<close>: \<open>self\<close> is the position the move is applied to,
  \<open>bits\<close> the board being built. A Python integer used as a condition is true when it
  is not 0.
\<close>

definition castleLogic :: "int \<Rightarrow> int \<Rightarrow> int \<Rightarrow> int \<Rightarrow> int" where
  "castleLogic self move piece bits =
     (let newCastles = getCastles self;
          (bits, newCastles) =
            (if pieceType piece = KING then
               (let bits =
                      (case CASTLE_MOVES move of
                         Some rookIndex \<Rightarrow>
                           (let bits = removePiece bits (rookIndex * PIECE_SIZE);
                                newCol = (if rookIndex AND 7 = 7 then 5 else 3);
                                rookDest = (rookIndex AND push_bit 3 7) OR newCol
                            in addPiece bits (rookDest * PIECE_SIZE) (ROOK OR sideToMove self))
                       | None \<Rightarrow> bits)
                in (bits, newCastles AND NOT (push_bit (if whiteToMove self \<noteq> 0 then 2 else 0) 3)))
             else (bits, newCastles));
          newCastles =
            (if pieceType piece = ROOK then
               (let shift = (if whiteToMove self \<noteq> 0 then 2 else 0)
                            + (if move AND 7 = 7 then 0 else 1 :: nat)
                in newCastles AND NOT (push_bit shift 1))
             else newCastles);
          oppRow = (if whiteToMove self \<noteq> 0 then 7 else 0 :: int);
          destRow = drop_bit 9 (move AND push_bit 9 7);
          newCastles =
            (if destRow = oppRow then
               (let shift = (if whiteToMove self \<noteq> 0 then 0 else 2)
                            + (if move AND 7 = 7 then 0 else 1 :: nat)
                in newCastles AND NOT (push_bit shift 1))
             else newCastles)
      in bits AND (push_bit CASTLES_START newCastles OR NOT (push_bit CASTLES_START CASTLES_MASK)))"

text \<open>
  \<open>makeMove\<close> takes either move text or a packed move. The first part decodes the
  argument into \<open>(move, src, dest, promo)\<close>: slicing never raises, \<open>algebraic[1]\<close> raises
  IndexError on a slice shorter than two characters, \<open>int\<close> raises ValueError on a
  non-digit and \<open>PIECE_MAP[move[4]]\<close> raises KeyError on an unknown promotion letter.
\<close>

datatype move = MoveStr string | MoveInt int

definition decodeMove :: "move \<Rightarrow> error + int \<times> int \<times> int \<times> int" where
  "decodeMove mv =
     (case mv of
        MoveStr text \<Rightarrow>
          ebind (algebraicToIndex (take 2 text)) (\<lambda>src.
          ebind (algebraicToIndex (take 2 (drop 2 text))) (\<lambda>dest.
          ebind (if length text < 5 then Inr 0
                 else (case PIECE_MAP (text ! 4) of None \<Rightarrow> Inl KeyError | Some p \<Rightarrow> Inr p))
            (\<lambda>promo. Inr (push_bit DEST_SQ dest OR src, src, dest, promo))))
      | MoveInt move \<Rightarrow>
          Inr (move, MOVE_SQ_MASK AND move,
               drop_bit DEST_SQ (push_bit DEST_SQ MOVE_SQ_MASK AND move),
               drop_bit PROMO_PIECE (push_bit PROMO_PIECE MOVE_PIECE_MASK AND move)))"

text \<open>
  What \<open>makeMove\<close> writes to standard output: on an empty or enemy source square it calls
  \<open>prettyPrintVerbose\<close> and prints \<open>"Illegal move: " + oct(move)\<close>, then goes on and applies
  the move. \<open>prettyPrint\<close> indexes \<open>PIECE_STRING\<close> (7 characters) with the kind bits of
  every square, so it raises IndexError on a board with a nibble of kind 7.
\<close>

datatype printed = PrettyPrintVerbose int | PrintIllegalMove int

definition prettyPrintVerbose :: "int \<Rightarrow> error + printed list" where
  "prettyPrintVerbose bits =
     (if list_ex (\<lambda>i. getPiece bits i AND 7 = 7) [0..63] then Inl IndexError
      else Inr [PrettyPrintVerbose bits])"

text \<open>The body of \<open>makeMove\<close> after the legality print, up to \<open>addPiece\<close> on the destination.\<close>

definition moveBits :: "int \<Rightarrow> int \<Rightarrow> int \<Rightarrow> int \<Rightarrow> int \<Rightarrow> int" where
  "moveBits self move src dest promo =
     (let srcAddr = src * PIECE_SIZE;
          srcPiece = getPiece self src;
          endPiece = srcPiece;
          newBits = removePiece self srcAddr;
          newBits = castleLogic self move srcPiece newBits;
          endPiece =
            (if pieceType srcPiece = PAWN \<and> (dest \<le> 7 \<or> dest \<ge> 56)
             then (if promo > 0 then QUEEN else promo) OR sideToMove self
             else endPiece);
          newBits =
            (if pieceType srcPiece = PAWN \<and> dest = getEnpassant self
             then (let capturedAddr = ((src AND push_bit 3 7) OR (dest AND 7)) * PIECE_SIZE
                   in removePiece newBits capturedAddr)
             else newBits);
          newBits = newBits AND NOT (push_bit ENPASSANT_START ENPASSANT_MASK);
          doubleAdvance = (\<bar>src - dest\<bar> = 16);
          newBits =
            (if pieceType srcPiece = PAWN \<and> doubleAdvance
             then (let epRow = (if whiteToMove self \<noteq> 0 then 40 else 16 :: int)
                   in newBits OR push_bit ENPASSANT_START (epRow OR (src AND 7)))
             else newBits);
          destAddr = dest * PIECE_SIZE;
          newBits = addPiece newBits destAddr endPiece
      in newBits XOR push_bit SIDE_TO_MOVE_START 1)"

text \<open>
  \<open>makeMove\<close> returns what was printed and the successor position. A negative source
  square makes \<open>getPiece\<close> raise ValueError (negative shift count) before anything is
  printed; a negative destination makes \<open>addPiece\<close> raise it at the end.
\<close>

definition makeMove :: "int \<Rightarrow> move \<Rightarrow> error + printed list \<times> int" where
  "makeMove self mv =
     ebind (decodeMove mv) (\<lambda>(move, src, dest, promo).
       if src < 0 then Inl ValueError
       else
         (let srcPiece = getPiece self src in
          ebind (if srcPiece = 0 \<or> isOpponentPiece self srcPiece
                 then ebind (prettyPrintVerbose self) (\<lambda>out. Inr (out @ [PrintIllegalMove move]))
                 else Inr [])
            (\<lambda>out. if dest < 0 then Inl ValueError
                    else Inr (out, moveBits self move src dest promo))))"

section \<open>Move generation\<close>

definition ROOK_DIRS :: "(int \<times> int) list" where
  "ROOK_DIRS = [(-1, 0), (1, 0), (0, -1), (0, 1)]"

definition BISHOP_DIRS :: "(int \<times> int) list" where
  "BISHOP_DIRS = [(-1, -1), (-1, 1), (1, -1), (1, 1)]"

definition KNIGHT_DIRS :: "(int \<times> int) list" where
  "KNIGHT_DIRS = [(-2, -1), (-2, 1), (2, -1), (2, 1), (-1, -2), (-1, 2), (1, -2), (1, 2)]"

definition ROYAL_DIRS :: "(int \<times> int) list" where
  "ROYAL_DIRS = [(-1, -1), (-1, 0), (-1, 1), (0, -1), (0, 1), (1, -1), (1, 0), (1, 1)]"

definition DIR_MAP :: "int \<Rightarrow> (int \<times> int) list option" where
  "DIR_MAP k =
     (if k = ROOK then Some ROOK_DIRS else if k = BISHOP then Some BISHOP_DIRS
      else if k = QUEEN then Some ROYAL_DIRS else if k = KNIGHT then Some KNIGHT_DIRS
      else if k = KING then Some ROYAL_DIRS else None)"

lemmas dir_defs = ROOK_DIRS_def BISHOP_DIRS_def KNIGHT_DIRS_def ROYAL_DIRS_def

definition PIECE_STRING :: string where
  "PIECE_STRING = '' pnbrqk''"

text \<open>\<open>PIECE_STRING[k]\<close> for a piece kind \<open>k\<close> (never negative): IndexError for kind 7.\<close>

definition pieceString :: "int \<Rightarrow> error + char" where
  "pieceString k =
     (if 0 \<le> k \<and> k < int (length PIECE_STRING) then Inr (PIECE_STRING ! nat k)
      else Inl IndexError)"

definition findPiece :: "int \<Rightarrow> int \<Rightarrow> error + int" where
  "findPiece bits piece =
     (case List.find
             (\<lambda>shift. piece = drop_bit (nat shift) (bits AND push_bit (nat shift) PIECE_MASK))
             (map (\<lambda>i. BOARD_START + PIECE_SIZE * i) [0..63]) of
        Some shift \<Rightarrow> Inr (shift div PIECE_SIZE)
      | None \<Rightarrow> ebind (prettyPrintVerbose bits) (\<lambda>_. Inl PieceNotFound))"

definition constructMove :: "int \<Rightarrow> int \<Rightarrow> int \<Rightarrow> int \<Rightarrow> int \<Rightarrow> int \<Rightarrow> int" where
  "constructMove srcSq destSq srcPiece destPiece meta promoPiece =
     (let srcPiece = pieceType srcPiece; destPiece = pieceType destPiece in
      push_bit MOVE_META meta OR push_bit PROMO_PIECE promoPiece OR
      push_bit DEST_PIECE destPiece OR push_bit SRC_PIECE srcPiece OR
      push_bit DEST_SQ destSq OR srcSq)"

text \<open>
  The \<open>while\<close> loop of \<open>legalMovesForNonPawns\<close>: from the state \<open>(destSq, outOfBounds)\<close> it
  appends a quiet move per empty square and returns the moves with the state it stops in.
\<close>

function slideMoves ::
  "int \<Rightarrow> int \<Rightarrow> int \<Rightarrow> bool \<Rightarrow> int \<times> int \<Rightarrow> int \<times> bool \<Rightarrow> error + int list \<times> int \<times> bool" where
  "slideMoves bits piece index multiStep d (destSq, outOfBounds) =
     (if multiStep \<and> \<not> outOfBounds \<and> getPiece bits destSq = 0 then
        (if indexPlusCoord destSq d = (destSq, False) then Inl Diverges
         else ebind (slideMoves bits piece index multiStep d (indexPlusCoord destSq d))
                (\<lambda>(moves, st). Inr (constructMove index destSq piece 0 0 0 # moves, st)))
      else Inr ([], destSq, outOfBounds))"
  by pat_completeness auto
termination
proof (relation "measure (\<lambda>(bits, piece, index, multiStep, d, (sq, oob)).
         if oob then 0
         else 1 + (if fst d * 8 + snd d > 0 then nat (64 - sq) else nat (sq + 1)))",
       goal_cases)
  case 1
  show ?case by simp
next
  case (2 bits piece index multiStep d destSq outOfBounds)
  then show ?case
    by (cases d) (auto simp: indexPlusCoord_def BOARD_SIZE_def Let_def split: if_splits)
qed

declare slideMoves.simps [simp del]

text \<open>One iteration of the direction loop of \<open>legalMovesForNonPawns\<close>.\<close>

definition nonPawnDir :: "int \<Rightarrow> int \<Rightarrow> int \<Rightarrow> bool \<Rightarrow> int \<times> int \<Rightarrow> error + int list" where
  "nonPawnDir bits piece index multiStep d =
     ebind (slideMoves bits piece index multiStep d (indexPlusCoord index d))
       (\<lambda>(moves, destSq, outOfBounds).
          if outOfBounds then Inr moves
          else
            (let destPiece = getPiece bits destSq in
             if destPiece \<noteq> 0 \<and> areEnemies piece destPiece
             then Inr (moves @ [constructMove index destSq piece destPiece CAPTURE 0])
             else if \<not> multiStep \<and> destPiece = 0
             then Inr (moves @ [constructMove index destSq piece destPiece 0 0])
             else Inr moves))"

fun concatE :: "('a \<Rightarrow> error + 'b list) \<Rightarrow> 'a list \<Rightarrow> error + 'b list" where
  "concatE f [] = Inr []"
| "concatE f (x # xs) = ebind (f x) (\<lambda>ys. ebind (concatE f xs) (\<lambda>zs. Inr (ys @ zs)))"

definition legalMovesForNonPawns ::
  "int \<Rightarrow> int \<Rightarrow> int \<Rightarrow> (int \<times> int) list \<Rightarrow> error + int list" where
  "legalMovesForNonPawns bits piece index directions =
     ebind (pieceString (pieceType piece)) (\<lambda>c.
       let multiStep = (c \<in> set ''rbq'') in
       concatE (nonPawnDir bits piece index multiStep) directions)"

text \<open>
  One iteration of the capture loop of \<open>legalMovesForPawn\<close>. The local \<open>destPiece\<close>
  outlives the loop (the promotion branch of the advance reads it), so it is part of the
  state: \<open>None\<close> while it is unbound.
\<close>

definition pawnDiag ::
  "int \<Rightarrow> int \<Rightarrow> int \<Rightarrow> int list \<times> int option \<Rightarrow> int \<times> int \<Rightarrow> int list \<times> int option" where
  "pawnDiag bits pawn index st diag =
     (let (moves, bound) = st; (destSq, outOfBounds) = indexPlusCoord index diag in
      if outOfBounds then (moves, bound)
      else
        (let destPiece = getPiece bits destSq in
         if destPiece \<noteq> 0 \<and> areEnemies pawn destPiece then
           (if isBackRank destSq
            then (moves @ map (constructMove index destSq pawn destPiece (CAPTURE OR PROMOTION))
                            [QUEEN, ROOK, BISHOP, KNIGHT],
                  Some destPiece)
            else (moves @ [constructMove index destSq pawn destPiece CAPTURE 0], Some destPiece))
         else if destSq = getEnpassant bits \<and> destSq > 0
         then (moves @ [constructMove index destSq pawn PAWN CAPTURE 0], Some destPiece)
         else (moves, Some destPiece)))"

definition legalMovesForPawn :: "int \<Rightarrow> int \<Rightarrow> int \<Rightarrow> error + int list" where
  "legalMovesForPawn bits pawn index =
     (let forward = (if whiteToMove bits \<noteq> 0 then - 1 else 1 :: int);
          diagonals = [(forward, - 1), (forward, 1)];
          (moves, bound) = foldl (pawnDiag bits pawn index) ([], None) diagonals;
          (destSq, outOfBounds) = indexPlusCoord index (forward, 0)
      in if outOfBounds \<or> getPiece bits destSq \<noteq> 0 then Inr moves
         else
           ebind (if isBackRank destSq
                  then (case bound of
                          None \<Rightarrow> Inl UnboundLocalError
                        | Some destPiece \<Rightarrow>
                            Inr (moves @ map (constructMove index destSq pawn destPiece 0)
                                           [QUEEN, ROOK, BISHOP, KNIGHT]))
                  else Inr (moves @ [constructMove index destSq pawn 0 0 0]))
             (\<lambda>moves.
                if index div BOARD_SIZE \<noteq> (if whiteToMove bits \<noteq> 0 then 6 else 1) then Inr moves
                else
                  (let double = index + 2 * BOARD_SIZE * forward in
                   if getPiece bits double = 0
                   then Inr (moves @ [constructMove index double pawn 0 0 0])
                   else Inr moves)))"

definition legalMovesForPiece :: "int \<Rightarrow> int \<Rightarrow> int \<Rightarrow> error + int list" where
  "legalMovesForPiece bits piece index =
     (if pieceType piece = PAWN then legalMovesForPawn bits piece index
      else (case DIR_MAP (pieceType piece) of
              None \<Rightarrow> Inl KeyError
            | Some directions \<Rightarrow> legalMovesForNonPawns bits piece index directions))"

section \<open>Attack detection\<close>

text \<open>The \<open>while\<close> loop of \<open>isSquareAttackedByPiece\<close>, on the state \<open>(tmp, outOfBounds)\<close>.\<close>

function slideAttack :: "int \<Rightarrow> bool \<Rightarrow> int \<times> int \<Rightarrow> int \<times> bool \<Rightarrow> error + int \<times> bool" where
  "slideAttack bits multiStep d (tmp, outOfBounds) =
     (if multiStep \<and> \<not> outOfBounds \<and> getPiece bits tmp = 0 then
        (if indexPlusCoord tmp d = (tmp, False) then Inl Diverges
         else slideAttack bits multiStep d (indexPlusCoord tmp d))
      else Inr (tmp, outOfBounds))"
  by pat_completeness auto
termination
proof (relation "measure (\<lambda>(bits, multiStep, d, (sq, oob)).
         if oob then 0
         else 1 + (if fst d * 8 + snd d > 0 then nat (64 - sq) else nat (sq + 1)))",
       goal_cases)
  case 1
  show ?case by simp
next
  case (2 bits multiStep d tmp outOfBounds)
  then show ?case
    by (cases d) (auto simp: indexPlusCoord_def BOARD_SIZE_def Let_def split: if_splits)
qed

declare slideAttack.simps [simp del]

text \<open>
  The direction loop of \<open>isSquareAttackedByPiece\<close>: it returns at the first direction that
  finds an attacker, so a later direction is not looked at (nor can it raise).
\<close>

fun attackDirs :: "int \<Rightarrow> int \<Rightarrow> int \<Rightarrow> bool \<Rightarrow> string \<Rightarrow> (int \<times> int) list \<Rightarrow> error + bool" where
  "attackDirs bits index target multiStep pieces [] = Inr False"
| "attackDirs bits index target multiStep pieces (d # ds) =
     ebind (slideAttack bits multiStep d (indexPlusCoord index d)) (\<lambda>(tmp, outOfBounds).
       if outOfBounds then attackDirs bits index target multiStep pieces ds
       else
         (let piece = getPiece bits tmp in
          ebind (pieceString (pieceType piece)) (\<lambda>pieceStr.
            if pieceStr \<in> set pieces \<and> areEnemies piece target then Inr True
            else attackDirs bits index target multiStep pieces ds)))"

definition isSquareAttackedByPiece ::
  "int \<Rightarrow> int \<Rightarrow> int \<Rightarrow> (int \<times> int) list \<Rightarrow> string \<Rightarrow> error + bool" where
  "isSquareAttackedByPiece bits index target directions pieces =
     (let multiStep = list_ex (\<lambda>p. p \<in> set pieces) ''rbq'' in
      attackDirs bits index target multiStep pieces directions)"

text \<open>
  \<open>any([... for ...])\<close> builds the whole list first: every element is computed (and can
  raise) before \<open>any\<close> looks at one.
\<close>

fun mapE :: "('a \<Rightarrow> error + 'b) \<Rightarrow> 'a list \<Rightarrow> error + 'b list" where
  "mapE f [] = Inr []"
| "mapE f (x # xs) = ebind (f x) (\<lambda>y. ebind (mapE f xs) (\<lambda>ys. Inr (y # ys)))"

text \<open>The pawn loop of \<open>isSquareAttacked\<close>.\<close>

fun pawnAttack :: "int \<Rightarrow> int \<Rightarrow> int \<Rightarrow> (int \<times> int) list \<Rightarrow> bool" where
  "pawnAttack bits index target [] = False"
| "pawnAttack bits index target (diag # diags) =
     (let (tmp, outOfBounds) = indexPlusCoord index diag in
      if outOfBounds then pawnAttack bits index target diags
      else
        (let piece = getPiece bits tmp in
         if pieceType piece = PAWN \<and> areEnemies piece target then True
         else pawnAttack bits index target diags))"

definition isSquareAttacked :: "int \<Rightarrow> int \<Rightarrow> int option \<Rightarrow> error + bool" where
  "isSquareAttacked bits index target0 =
     (let directionals = [(KNIGHT_DIRS, ''n''), (ROOK_DIRS, ''rq''),
                          (BISHOP_DIRS, ''bq''), (ROYAL_DIRS, ''k'')];
          target = (case target0 of None \<Rightarrow> getPiece bits index | Some t \<Rightarrow> t)
      in ebind (mapE (\<lambda>(dir, ps). isSquareAttackedByPiece bits index target dir ps) directionals)
           (\<lambda>hits.
              if list_ex (\<lambda>h. h) hits then Inr True
              else
                (let forward = (if whiteToMove bits \<noteq> 0 then 1 else - 1 :: int);
                     diagonals = [(forward, 1), (forward, - 1)]
                 in Inr (pawnAttack bits index target diagonals))))"

section \<open>Castling candidates and the legality filter\<close>

definition castleMap :: "int \<Rightarrow> int option" where
  "castleMap castle =
     (if castle = 1 then Some 4219268        \<comment> \<open>0o20060604: e8g8, black king-side\<close>
      else if castle = 2 then Some 4219012   \<comment> \<open>0o20060204: e8c8, black queen-side\<close>
      else if castle = 4 then Some 4222908   \<comment> \<open>0o20067674: e1g1, white king-side\<close>
      else if castle = 8 then Some 4222652   \<comment> \<open>0o20067274: e1c1, white queen-side\<close>
      else None)"

text \<open>One iteration of the loop of \<open>legalCastleMoves\<close>, for \<open>shift\<close> in \<open>range(2)\<close>.\<close>

definition castleSide :: "int \<Rightarrow> nat \<Rightarrow> error + int list" where
  "castleSide bits shift =
     (let mask = push_bit (shift + (if whiteToMove bits \<noteq> 0 then 2 else 0)) (1 :: int);
          castle = getCastles bits AND mask
      in if castle = 0 then Inr []
         else
           (let isKingside = (shift = 0);
                emptyMask = (if isKingside then 255 else 4095 :: int);
                shift = nat ((if whiteToMove bits \<noteq> 0 then 56 * PIECE_SIZE else 0)
                             + (if isKingside then 20 else 4))
            in if bits AND push_bit shift emptyMask \<noteq> 0 then Inr []
               else
                 (let transits = (if isKingside then [4, 5, 6] else [2, 3, 4 :: int]);
                      row = (if whiteToMove bits \<noteq> 0 then 56 else 0 :: int)
                  in ebind (mapE (\<lambda>t. isSquareAttacked bits (t + row)
                                          (Some (sideToMove bits OR KING))) transits)
                       (\<lambda>hits.
                          if list_ex (\<lambda>h. h) hits then Inr []
                          else (case castleMap castle of
                                  None \<Rightarrow> Inl KeyError
                                | Some m \<Rightarrow> Inr [m])))))"

definition legalCastleMoves :: "int \<Rightarrow> error + int list" where
  "legalCastleMoves bits = concatE (castleSide bits) [0, 1]"

text \<open>
  The body of the loop of \<open>kingCheckAnalysis\<close> for one move: the moves it appends
  (none, the move, or the move with the CHECK flag). What \<open>makeMove\<close> prints is not part
  of the value of \<open>kingCheckAnalysis\<close>.
\<close>

definition kingCheckMove :: "int \<Rightarrow> int \<Rightarrow> error + int list" where
  "kingCheckMove bits move =
     ebind (makeMove bits (MoveInt move)) (\<lambda>(out, postMoveBoard).
       let ourKing = KING OR sideToMove bits in
       ebind (findPiece postMoveBoard ourKing) (\<lambda>ourKingIndex.
       ebind (isSquareAttacked postMoveBoard ourKingIndex (Some ourKing)) (\<lambda>attacked.
         if attacked then Inr []
         else
           (let otherKing = KING OR (if whiteToMove bits \<noteq> 0 then 0 else 8) in
            ebind (findPiece postMoveBoard otherKing) (\<lambda>otherKingIndex.
            ebind (isSquareAttacked postMoveBoard otherKingIndex (Some otherKing)) (\<lambda>checked.
              if checked then Inr [move OR push_bit MOVE_META CHECK]
              else Inr [move]))))))"

definition kingCheckAnalysis :: "int \<Rightarrow> int list \<Rightarrow> error + int list" where
  "kingCheckAnalysis bits moves = concatE (kingCheckMove bits) moves"

text \<open>The square loop of \<open>computeLegalMoves\<close>, then the castling candidates.\<close>

definition squareMoves :: "int \<Rightarrow> int \<Rightarrow> error + int list" where
  "squareMoves bits i =
     (let piece = getPiece bits i in
      if piece = 0 \<or> isOpponentPiece bits piece then Inr []
      else legalMovesForPiece bits piece i)"

definition candidateMoves :: "int \<Rightarrow> error + int list" where
  "candidateMoves bits =
     ebind (concatE (squareMoves bits) [0..63]) (\<lambda>moves.
     ebind (legalCastleMoves bits) (\<lambda>castles. Inr (moves @ castles)))"

definition moveMeta :: "int \<Rightarrow> int" where
  "moveMeta m = m AND push_bit MOVE_META MOVE_META_MASK"

text \<open>
  \<open>moves.sort(key=..., reverse=True)\<close> is the stable sort of Python by descending key
  (\<open>reverse=True\<close> keeps the order of elements with equal keys); \<open>sort_key\<close>, the stable
  insertion sort of HOL, on the negated key gives the same list. \<open>filteredMoves\<close> is the
  list before it is sorted. The value of \<open>computeLegalMoves\<close> is what it stores in
  \<open>_legalMoves\<close>, which \<open>getLegalMoves\<close> returns.
\<close>

definition filteredMoves :: "int \<Rightarrow> error + int list" where
  "filteredMoves bits = ebind (candidateMoves bits) (kingCheckAnalysis bits)"

definition computeLegalMoves :: "int \<Rightarrow> error + int list" where
  "computeLegalMoves bits =
     ebind (filteredMoves bits) (\<lambda>moves. Inr (sort_key (\<lambda>m. - moveMeta m) moves))"

definition getLegalMoves :: "int \<Rightarrow> error + int list" where
  "getLegalMoves bits = computeLegalMoves bits"

definition isCheckMate :: "int \<Rightarrow> error + bool" where
  "isCheckMate bits =
     ebind (findPiece bits (sideToMove bits OR KING)) (\<lambda>kingIndex.
     ebind (getLegalMoves bits) (\<lambda>moves.
       if length moves = 0 then isSquareAttacked bits kingIndex None else Inr False))"

section \<open>Move text and the protocol loop\<close>

text \<open>
  \<open>indexToAlgebraic\<close> writes the rank with \<open>str\<close>; for a square of the board the rank
  \<open>8 - index div 8\<close> is a single digit, which is all \<open>moveStr\<close> asks for (it masks both
  squares to six bits).
\<close>

definition indexToAlgebraic :: "int \<Rightarrow> string" where
  "indexToAlgebraic index =
     [''abcdefgh'' ! nat (index mod BOARD_SIZE), char_of (48 + nat (8 - index div BOARD_SIZE))]"

definition moveStr :: "int \<Rightarrow> error + string" where
  "moveStr move =
     (let src = indexToAlgebraic (move AND MOVE_SQ_MASK);
          dest = indexToAlgebraic (drop_bit DEST_SQ (move AND push_bit DEST_SQ MOVE_SQ_MASK));
          promo = drop_bit PROMO_PIECE (move AND push_bit PROMO_PIECE MOVE_PIECE_MASK);
          pieces = [[], [], ''r'', ''b'', ''n'', ''q'', []]
      in if promo < int (length pieces) then Inr (src @ dest @ pieces ! nat promo)
         else Inl IndexError)"

text \<open>
  The loop of \<open>Engine.position\<close> in random_bot.py: the moves of a game applied one after
  the other, each to the position the one before it returned.
\<close>

fun makeMoves :: "int \<Rightarrow> move list \<Rightarrow> error + int" where
  "makeMoves board [] = Inr board"
| "makeMoves board (mv # mvs) =
     ebind (makeMove board mv) (\<lambda>(out, board'). makeMoves board' mvs)"

section \<open>Notions the properties are stated with\<close>

text \<open>
  A castling right is read the way \<open>legalCastleMoves\<close> reads it, by masking
  \<open>getCastles\<close> with one bit: right 0 is k, 1 is q, 2 is K, 3 is Q.
\<close>

definition hasRight :: "int \<Rightarrow> nat \<Rightarrow> bool" where
  "hasRight bits n \<longleftrightarrow> getCastles bits AND push_bit n 1 \<noteq> 0"

text \<open>
  A move whose two squares are squares of the board. Every packed move is one (its squares
  are masked to six bits); move text is one when its files are a-h and its ranks 1-8.
\<close>

definition onBoard :: "move \<Rightarrow> bool" where
  "onBoard mv =
     (case decodeMove mv of
        Inr (move, src, dest, promo) \<Rightarrow> 0 \<le> src \<and> src \<le> 63 \<and> 0 \<le> dest \<and> dest \<le> 63
      | Inl e \<Rightarrow> False)"

text \<open>
  The fields of a packed move, read the way \<open>makeMove\<close> decodes them, and its CASTLE flag.
\<close>

definition moveSrc :: "int \<Rightarrow> int" where
  "moveSrc move = MOVE_SQ_MASK AND move"

definition moveDest :: "int \<Rightarrow> int" where
  "moveDest move = drop_bit DEST_SQ (push_bit DEST_SQ MOVE_SQ_MASK AND move)"

definition castleFlag :: "int \<Rightarrow> bool" where
  "castleFlag move \<longleftrightarrow> move AND push_bit MOVE_META CASTLE \<noteq> 0"

definition movePromo :: "int \<Rightarrow> int" where
  "movePromo move = drop_bit PROMO_PIECE (push_bit PROMO_PIECE MOVE_PIECE_MASK AND move)"

text \<open>
  A pawn double-advance: the source square holds a pawn of the side to move, it stands on
  that side's pawn row (row 6 for white, row 1 for black), and the destination is two rows
  straight ahead.
\<close>

definition isDoubleAdvance :: "int \<Rightarrow> int \<Rightarrow> bool" where
  "isDoubleAdvance bits move \<longleftrightarrow>
     (let src = moveSrc move; dest = moveDest move; piece = getPiece bits src
      in pieceType piece = PAWN \<and> \<not> isOpponentPiece bits piece \<and>
         (if whiteToMove bits \<noteq> 0 then src div 8 = 6 \<and> dest = src - 16
          else src div 8 = 1 \<and> dest = src + 16))"

text \<open>
  The packed moves the piece generators build for the piece on \<open>index\<close>: a destination on
  the board, the meta values they pass to \<open>constructMove\<close> and a promotion kind of three bits.
\<close>

definition pieceMoveOf :: "int \<Rightarrow> int \<Rightarrow> int \<Rightarrow> int \<Rightarrow> bool" where
  "pieceMoveOf index piece dest m \<longleftrightarrow>
     0 \<le> dest \<and> dest \<le> 63 \<and>
     (\<exists>dp meta promo. m = constructMove index dest piece dp meta promo \<and>
        (meta = 0 \<or> meta = CAPTURE \<or> meta = (CAPTURE OR PROMOTION)) \<and>
        0 \<le> promo \<and> promo \<le> 7)"

text \<open>The CHECK and PROMOTION flags of a packed move.\<close>

definition checkFlag :: "int \<Rightarrow> bool" where
  "checkFlag move \<longleftrightarrow> move AND push_bit MOVE_META CHECK \<noteq> 0"

definition promotionFlag :: "int \<Rightarrow> bool" where
  "promotionFlag move \<longleftrightarrow> move AND push_bit MOVE_META PROMOTION \<noteq> 0"

text \<open>
  Well-formed move text: a source and a destination square, each a file a-h and a rank
  1-8, and optionally a fifth character, one of the promotion letters of \<open>PIECE_MAP\<close>.
\<close>

definition isSquareText :: "string \<Rightarrow> bool" where
  "isSquareText s =
     (case s of [f, r] \<Rightarrow> f \<in> set ''abcdefgh'' \<and> r \<in> set ''12345678'' | _ \<Rightarrow> False)"

definition wellFormedMoveText :: "string \<Rightarrow> bool" where
  "wellFormedMoveText t \<longleftrightarrow>
     (length t = 4 \<or> length t = 5 \<and> t ! 4 \<in> set ''rbnq'') \<and>
     isSquareText (take 2 t) \<and> isSquareText (take 2 (drop 2 t))"

section \<open>The fields of the packed position\<close>

lemma bit_15_iff: "bit (15 :: int) n \<longleftrightarrow> n < 4"
proof -
  have e: "(15 :: int) = mask 4" by (simp add: mask_eq_exp_minus_1)
  show ?thesis unfolding e by (simp add: bit_mask_iff)
qed

lemma bit_63_iff: "bit (63 :: int) n \<longleftrightarrow> n < 6"
proof -
  have e: "(63 :: int) = mask 6" by (simp add: mask_eq_exp_minus_1)
  show ?thesis unfolding e by (simp add: bit_mask_iff)
qed

lemma bit_7_iff: "bit (7 :: int) n \<longleftrightarrow> n < 3"
proof -
  have e: "(7 :: int) = mask 3" by (simp add: mask_eq_exp_minus_1)
  show ?thesis unfolding e by (simp add: bit_mask_iff)
qed

lemma bit_1_int_iff: "bit (1 :: int) n \<longleftrightarrow> n = 0"
  by (simp add: bit_1_iff)

lemma bit_getCastles: "bit (getCastles x) n \<longleftrightarrow> n < 4 \<and> bit x (257 + n)"
  by (auto simp: getCastles_def layout_defs bit_simps bit_15_iff)

lemma bit_getEnpassant: "bit (getEnpassant x) n \<longleftrightarrow> n < 6 \<and> bit x (261 + n)"
  by (auto simp: getEnpassant_def layout_defs bit_simps bit_63_iff)

lemma bit_getPiece: "bit (getPiece x i) n \<longleftrightarrow> n < 4 \<and> bit x (nat (4 * i) + n)"
  by (auto simp: getPiece_def layout_defs bit_simps bit_15_iff Let_def)

lemma bit_8_iff: "bit (8 :: int) n \<longleftrightarrow> n = 3"
proof -
  have e: "(8 :: int) = 2 ^ 3" by simp
  show ?thesis unfolding e by (simp only: bit_exp_iff) simp
qed

lemma bit_sideToMove: "bit (sideToMove x) n \<longleftrightarrow> n = 3 \<and> bit x 256"
  by (auto simp: sideToMove_def layout_defs bit_and_iff bit_drop_bit_eq bit_push_bit_iff bit_1_int_iff bit_8_iff)

lemma bit_whiteToMove: "bit (whiteToMove x) n \<longleftrightarrow> n = 0 \<and> bit x 256"
  by (auto simp: whiteToMove_def layout_defs bit_simps bit_1_int_iff)

lemma small_no_high_bit:
  fixes p :: int
  assumes "0 \<le> p" "p < 2 ^ k" "k \<le> n"
  shows "\<not> bit p n"
proof -
  have "take_bit k p = p" using assms by (simp add: take_bit_int_eq_self)
  then have "bit p n = bit (take_bit k p) n" by simp
  also have "\<dots> = False" using assms by (simp add: bit_take_bit_iff)
  finally show ?thesis by simp
qed


lemma getPiece_eq_take_bit: "getPiece x i = take_bit 4 (drop_bit (nat (4 * i)) x)"
  by (rule bit_eqI) (auto simp: bit_getPiece bit_simps)

lemma getPiece_range: "0 \<le> getPiece x i \<and> getPiece x i < 16"
  using take_bit_int_less_exp [of 4 "drop_bit (nat (4 * i)) x"]
  by (simp add: getPiece_eq_take_bit)

lemma sideToMove_cases: "sideToMove x = 0 \<or> sideToMove x = 8"
proof (cases "bit x 256")
  case True
  have "sideToMove x = 8"
    by (rule bit_eqI) (simp add: bit_sideToMove bit_8_iff True)
  then show ?thesis by simp
next
  case False
  have "sideToMove x = 0"
    by (rule bit_eqI) (simp add: bit_sideToMove False)
  then show ?thesis by simp
qed

lemma whiteToMove_cases: "whiteToMove x = 0 \<or> whiteToMove x = 1"
proof (cases "bit x 256")
  case True
  have "whiteToMove x = 1"
    by (rule bit_eqI) (simp add: bit_whiteToMove bit_1_int_iff True)
  then show ?thesis by simp
next
  case False
  have "whiteToMove x = 0"
    by (rule bit_eqI) (simp add: bit_whiteToMove False)
  then show ?thesis by simp
qed

lemma bit_removePiece_high:
  "0 \<le> a \<Longrightarrow> a + 4 \<le> int k \<Longrightarrow> bit (removePiece x a) k = bit x k"
  by (auto simp: removePiece_def layout_defs bit_simps bit_15_iff)

lemma bit_removePiece_imp: "bit (removePiece x a) k \<Longrightarrow> bit x k"
  by (simp add: removePiece_def bit_simps)

lemma bit_addPiece_high:
  assumes "0 \<le> p" "p < 16" "0 \<le> a" "a + 4 \<le> int k"
  shows "bit (addPiece x a p) k = bit x k"
proof -
  have "\<not> bit p (k - nat a)"
    using assms by (intro small_no_high_bit [of p 4]) auto
  then show ?thesis
    using assms by (simp add: addPiece_def bit_or_iff bit_push_bit_iff bit_removePiece_high)
qed

lemma bit_CASTLES_MASK: "bit CASTLES_MASK n \<longleftrightarrow> n < 4"
  by (simp add: CASTLES_MASK_def bit_15_iff)

lemma bit_getCastles': "bit (getCastles x) n \<longleftrightarrow> n < 4 \<and> bit x (CASTLES_START + n)"
  by (auto simp: getCastles_def bit_simps bit_CASTLES_MASK)

lemma castleLogic_castles_bit:
  assumes "bit (castleLogic self move piece bits) (CASTLES_START + n)" "n < 4"
  shows "bit self (CASTLES_START + n)"
  using assms unfolding castleLogic_def Let_def
  by (auto simp: piece_defs bit_and_iff bit_or_iff bit_not_iff bit_push_bit_iff
        bit_getCastles' bit_CASTLES_MASK split: prod.splits option.splits if_splits)


lemma bit_ENPASSANT_MASK: "bit ENPASSANT_MASK n \<longleftrightarrow> n < 6"
  by (simp add: ENPASSANT_MASK_def bit_63_iff)

lemma bit_side_flip:
  fixes x :: int
  shows "bit (x XOR push_bit SIDE_TO_MOVE_START 1) k \<longleftrightarrow> (bit x k \<noteq> (k = SIDE_TO_MOVE_START))"
  by (auto simp: bit_xor_iff bit_exp_iff)

lemma bit_getEnpassant': "bit (getEnpassant x) n \<longleftrightarrow> n < 6 \<and> bit x (ENPASSANT_START + n)"
  by (auto simp: getEnpassant_def bit_simps bit_ENPASSANT_MASK)

lemma capturedSquare_range:
  "0 \<le> (src AND 56) OR (dest AND (7 :: int)) \<and> (src AND 56) OR (dest AND 7) \<le> 63"
proof -
  let ?c = "(src AND 56) OR (dest AND (7 :: int))"
  have "take_bit 6 ?c = ?c"
  proof (rule bit_eqI)
    fix n
    have "bit (56 :: int) n \<Longrightarrow> n < 6"
      using small_no_high_bit [of 56 6 n] by (cases "n < 6") auto
    moreover have "bit (7 :: int) n \<Longrightarrow> n < 6"
      by (simp add: bit_7_iff)
    ultimately show "bit (take_bit 6 ?c) n = bit ?c n"
      by (auto simp: bit_take_bit_iff bit_or_iff bit_and_iff)
  qed
  then have "0 \<le> ?c \<and> ?c < 2 ^ 6"
    using take_bit_nonnegative [of 6 ?c] take_bit_int_less_exp [of 6 ?c] by simp
  then show ?thesis by simp
qed

lemma endPiece_range:
  assumes "0 \<le> promo"
  shows "0 \<le> (if c then (if promo > 0 then QUEEN else promo) OR sideToMove self
                else getPiece self src)
         \<and> (if c then (if promo > 0 then QUEEN else promo) OR sideToMove self
                else getPiece self src) < 16"
  using assms sideToMove_cases [of self] getPiece_range [of self src]
  by (auto simp: QUEEN_def)

lemma bit_xor_push_1:
  fixes x :: int
  shows "k \<noteq> s \<Longrightarrow> bit (x XOR push_bit s 1) k = bit x k"
  by (auto simp: bit_xor_iff bit_exp_iff)

lemma moveBits_frame_below:
  fixes X :: int
  assumes "0 \<le> p" "p < 16" "0 \<le> a" "a + 4 \<le> int k" "k \<noteq> sm" "k < es"
  shows "bit (addPiece (if c then (X AND NOT (push_bit es m)) OR push_bit es e
                        else X AND NOT (push_bit es m)) a p
              XOR push_bit sm 1) k
         = bit X k"
proof -
  have "bit (addPiece (if c then (X AND NOT (push_bit es m)) OR push_bit es e
                        else X AND NOT (push_bit es m)) a p
              XOR push_bit sm 1) k
        = bit (addPiece (if c then (X AND NOT (push_bit es m)) OR push_bit es e
                        else X AND NOT (push_bit es m)) a p) k"
    using assms(5) by (rule bit_xor_push_1)
  also have "\<dots> = bit (if c then (X AND NOT (push_bit es m)) OR push_bit es e
                        else X AND NOT (push_bit es m)) k"
    using assms(1-4) by (rule bit_addPiece_high)
  also have "\<dots> = bit X k"
    using assms(6) by (simp add: bit_or_iff bit_and_iff bit_not_iff bit_push_bit_iff)
  finally show ?thesis .
qed

lemma moveBits_frame_ep:
  fixes X :: int
  assumes "0 \<le> p" "p < 16" "0 \<le> a" "a + 4 \<le> int es" "sm < es" "n < 6"
    and "\<And>j. bit m j \<longleftrightarrow> j < 6"
  shows "bit (addPiece (if c then (X AND NOT (push_bit es m)) OR push_bit es e
                        else X AND NOT (push_bit es m)) a p
              XOR push_bit sm 1) (es + n)
         \<longleftrightarrow> c \<and> bit e n"
proof -
  have "bit (addPiece (if c then (X AND NOT (push_bit es m)) OR push_bit es e
                        else X AND NOT (push_bit es m)) a p
              XOR push_bit sm 1) (es + n)
        = bit (addPiece (if c then (X AND NOT (push_bit es m)) OR push_bit es e
                        else X AND NOT (push_bit es m)) a p) (es + n)"
    using assms(5) by (intro bit_xor_push_1) simp
  also have "\<dots> = bit (if c then (X AND NOT (push_bit es m)) OR push_bit es e
                        else X AND NOT (push_bit es m)) (es + n)"
    using assms(1-4) by (intro bit_addPiece_high) simp_all
  also have "\<dots> \<longleftrightarrow> c \<and> bit e n"
    using assms(6,7) by (simp add: bit_or_iff bit_and_iff bit_not_iff bit_push_bit_iff)
  finally show ?thesis .
qed

lemma moveBits_castles_bit:
  assumes "0 \<le> dest" "dest \<le> 63" "0 \<le> promo" "n < 4"
    and "bit (moveBits self move src dest promo) (CASTLES_START + n)"
  shows "bit self (CASTLES_START + n)"
proof -
  let ?k = "CASTLES_START + n"
  let ?X = "castleLogic self move (getPiece self src) (removePiece self (src * PIECE_SIZE))"
  note er = endPiece_range [OF assms(3), of "pieceType (getPiece self src) = PAWN \<and> (dest \<le> 7 \<or> dest \<ge> 56)" self src]
  have hi: "dest * PIECE_SIZE + 4 \<le> int ?k" "0 \<le> dest * PIECE_SIZE"
    using assms by (simp_all add: PIECE_SIZE_def CASTLES_START_def)
  have ne: "?k \<noteq> SIDE_TO_MOVE_START" "?k < ENPASSANT_START"
    using assms(4) by (simp_all add: CASTLES_START_def ENPASSANT_START_def SIDE_TO_MOVE_START_def)
  note fr = moveBits_frame_below [OF er [THEN conjunct1] er [THEN conjunct2] hi(2) hi(1) ne]
  from assms(5) have "bit (if pieceType (getPiece self src) = PAWN \<and> dest = getEnpassant self
          then removePiece ?X (((src AND push_bit 3 7) OR (dest AND 7)) * PIECE_SIZE) else ?X) ?k"
    unfolding moveBits_def Let_def by (simp only: fr)
  then have "bit ?X ?k"
    by (auto split: if_splits dest: bit_removePiece_imp)
  then show ?thesis
    using assms(4) by (rule castleLogic_castles_bit)
qed

lemma getEnpassant_moveBits:
  assumes "0 \<le> dest" "dest \<le> 63" "0 \<le> promo"
  shows "getEnpassant (moveBits self move src dest promo) =
           (if pieceType (getPiece self src) = PAWN \<and> \<bar>src - dest\<bar> = 16
            then (if whiteToMove self \<noteq> 0 then 40 else 16) OR (src AND 7) else 0)"
proof (rule bit_eqI)
  fix n
  let ?e = "(if whiteToMove self \<noteq> 0 then 40 else 16) OR (src AND (7 :: int))"
  note er = endPiece_range [OF assms(3), of "pieceType (getPiece self src) = PAWN \<and> (dest \<le> 7 \<or> dest \<ge> 56)" self src]
  have hi: "dest * PIECE_SIZE + 4 \<le> int ENPASSANT_START" "0 \<le> dest * PIECE_SIZE"
    "SIDE_TO_MOVE_START < ENPASSANT_START"
    using assms by (simp_all add: PIECE_SIZE_def ENPASSANT_START_def SIDE_TO_MOVE_START_def)
  have e6: "\<not> bit ?e n" if "\<not> n < 6"
  proof -
    have "bit (40 :: int) n \<Longrightarrow> n < 6"
      using small_no_high_bit [of 40 6 n] by (cases "n < 6") auto
    moreover have "bit (16 :: int) n \<Longrightarrow> n < 6"
      using small_no_high_bit [of 16 6 n] by (cases "n < 6") auto
    ultimately show ?thesis
      using that by (auto simp: bit_or_iff bit_and_iff bit_7_iff)
  qed
  show "bit (getEnpassant (moveBits self move src dest promo)) n =
        bit (if pieceType (getPiece self src) = PAWN \<and> \<bar>src - dest\<bar> = 16 then ?e else 0) n"
  proof (cases "n < 6")
    case True
    note fr = moveBits_frame_ep [OF er [THEN conjunct1] er [THEN conjunct2] hi(2) hi(1) hi(3) True bit_ENPASSANT_MASK]
    show ?thesis
      unfolding bit_getEnpassant' moveBits_def Let_def
      by (simp only: fr) (auto simp: True)
  next
    case False
    then have "\<not> bit ?e n" by (rule e6)
    with False show ?thesis
      by (simp add: bit_getEnpassant')
  qed
qed

lemma hasRight_iff_bit: "hasRight bits n \<longleftrightarrow> n < 4 \<and> bit bits (CASTLES_START + n)"
proof -
  have "hasRight bits n \<longleftrightarrow> bit (getCastles bits) n"
    unfolding hasRight_def by (rule bit_iff_and_push_bit_not_eq_0 [symmetric])
  then show ?thesis by (simp add: bit_getCastles')
qed

lemma decodeMove_MoveInt_range:
  assumes "decodeMove (MoveInt m) = Inr (move, src, dest, promo)"
  shows "move = m \<and> 0 \<le> src \<and> src \<le> 63 \<and> 0 \<le> dest \<and> dest \<le> 63 \<and> 0 \<le> promo \<and> promo \<le> 7"
proof -
  have s: "src = take_bit 6 m"
    using assms
    by (auto simp: decodeMove_def move_defs intro!: bit_eqI simp: bit_simps bit_63_iff)
  have d: "dest = take_bit 6 (drop_bit 6 m)"
    using assms
    by (auto simp: decodeMove_def move_defs intro!: bit_eqI simp: bit_simps bit_63_iff)
  have p: "promo = take_bit 3 (drop_bit 18 m)"
    using assms
    by (auto simp: decodeMove_def move_defs intro!: bit_eqI simp: bit_simps bit_7_iff)
  have "move = m" using assms by (simp add: decodeMove_def)
  moreover have "0 \<le> src \<and> src < 2 ^ 6"
    unfolding s using take_bit_int_less_exp [of 6 m] by simp
  moreover have "0 \<le> dest \<and> dest < 2 ^ 6"
    unfolding d using take_bit_int_less_exp [of 6 "drop_bit 6 m"] by simp
  moreover have "0 \<le> promo \<and> promo < 2 ^ 3"
    unfolding p using take_bit_int_less_exp [of 3 "drop_bit 18 m"] by simp
  ultimately show ?thesis by simp
qed

lemma decodeMove_promo_nonneg:
  assumes "decodeMove mv = Inr (move, src, dest, promo)"
  shows "0 \<le> promo"
proof (cases mv)
  case (MoveInt m)
  then show ?thesis using assms decodeMove_MoveInt_range by blast
next
  case (MoveStr s)
  then show ?thesis
    using assms
    by (auto simp: decodeMove_def ebind_eq_Inr PIECE_MAP_def piece_defs
          split: if_splits option.splits)
qed

lemma onBoard_MoveInt: "onBoard (MoveInt m)"
proof -
  obtain move src dest promo where d: "decodeMove (MoveInt m) = Inr (move, src, dest, promo)"
    by (simp add: decodeMove_def)
  from decodeMove_MoveInt_range [OF d] d show ?thesis
    by (simp add: onBoard_def)
qed

lemma makeMove_Inr_moveBits:
  assumes "makeMove self mv = Inr (out, self')"
  obtains move src dest promo where
    "decodeMove mv = Inr (move, src, dest, promo)" "0 \<le> src" "0 \<le> dest" "0 \<le> promo"
    "self' = moveBits self move src dest promo"
proof -
  from assms obtain move src dest promo where
    d: "decodeMove mv = Inr (move, src, dest, promo)"
    by (cases "decodeMove mv") (auto simp: makeMove_def)
  with assms have "0 \<le> src \<and> 0 \<le> dest \<and> self' = moveBits self move src dest promo"
    by (auto simp: makeMove_def Let_def ebind_eq_Inr split: if_splits)
  with d decodeMove_promo_nonneg [OF d] that show ?thesis by blast
qed

lemma makeMove_rights:
  assumes "makeMove b mv = Inr (out, b')" "onBoard mv" "hasRight b' n"
  shows "hasRight b n"
proof -
  from assms(1) obtain move src dest promo where
    d: "decodeMove mv = Inr (move, src, dest, promo)" and r: "0 \<le> dest" "0 \<le> promo"
    and b': "b' = moveBits b move src dest promo"
    by (rule makeMove_Inr_moveBits)
  from assms(2) d have "dest \<le> 63" by (simp add: onBoard_def)
  with assms(3) r show ?thesis
    unfolding hasRight_iff_bit b' by (auto intro: moveBits_castles_bit)
qed

lemma makeMoves_rights:
  "makeMoves b mvs = Inr b' \<Longrightarrow> list_all onBoard mvs \<Longrightarrow> hasRight b' n \<Longrightarrow> hasRight b n"
proof (induction mvs arbitrary: b)
  case Nil
  then show ?case by simp
next
  case (Cons mv mvs)
  from Cons.prems(1) obtain out b1 where
    1: "makeMove b mv = Inr (out, b1)" and 2: "makeMoves b1 mvs = Inr b'"
    by (auto simp: ebind_eq_Inr)
  from Cons.IH [OF 2] Cons.prems have "hasRight b1 n" by simp
  with 1 Cons.prems(2) show ?case by (auto intro: makeMove_rights)
qed

section \<open>The shape of the generated moves\<close>

lemma pieceMoveOfI:
  "0 \<le> dest \<Longrightarrow> dest \<le> 63 \<Longrightarrow>
   meta = 0 \<or> meta = CAPTURE \<or> meta = (CAPTURE OR PROMOTION) \<Longrightarrow>
   0 \<le> promo \<Longrightarrow> promo \<le> 7 \<Longrightarrow>
   pieceMoveOf index piece dest (constructMove index dest piece dp meta promo)"
  unfolding pieceMoveOf_def by blast

lemma pieceMoveOf_promo:
  assumes "0 \<le> dest" "dest \<le> 63"
    and "meta = 0 \<or> meta = CAPTURE \<or> meta = (CAPTURE OR PROMOTION)"
  shows "pieceMoveOf index piece dest (constructMove index dest piece dp meta QUEEN)"
    and "pieceMoveOf index piece dest (constructMove index dest piece dp meta ROOK)"
    and "pieceMoveOf index piece dest (constructMove index dest piece dp meta BISHOP)"
    and "pieceMoveOf index piece dest (constructMove index dest piece dp meta KNIGHT)"
  using assms by (auto intro!: pieceMoveOfI simp: piece_defs)

lemma indexPlusCoord_inb:
  "indexPlusCoord sq d = (r, False) \<Longrightarrow> 0 \<le> r \<and> r \<le> 63 \<and> r = sq + fst d * 8 + snd d"
  by (auto simp: indexPlusCoord_def BOARD_SIZE_def Let_def split: if_splits)

lemma indexPlusCoord_state:
  "snd (indexPlusCoord sq d) \<or> (0 \<le> fst (indexPlusCoord sq d) \<and> fst (indexPlusCoord sq d) \<le> 63)"
  by (auto simp: indexPlusCoord_def BOARD_SIZE_def Let_def split: if_splits)

lemma slideMoves_shape:
  "slideMoves bits piece index ms d st = Inr (moves, st') \<Longrightarrow>
   snd st \<or> (0 \<le> fst st \<and> fst st \<le> 63) \<Longrightarrow>
   (snd st' \<or> (0 \<le> fst st' \<and> fst st' \<le> 63)) \<and>
   (\<forall>m \<in> set moves. \<exists>dst. pieceMoveOf index piece dst m)"
proof (induction bits piece index ms d st arbitrary: moves st' rule: slideMoves.induct)
  case (1 bits piece index multiStep d destSq outOfBounds)
  note eq = slideMoves.simps [of bits piece index multiStep d destSq outOfBounds]
  show ?case
  proof (cases "multiStep \<and> \<not> outOfBounds \<and> getPiece bits destSq = 0")
    case False
    with "1.prems"(1) have "moves = [] \<and> st' = (destSq, outOfBounds)"
      unfolding eq by auto
    with "1.prems"(2) show ?thesis by simp
  next
    case True
    from "1.prems"(1) True have np: "indexPlusCoord destSq d \<noteq> (destSq, False)"
      unfolding eq by (auto split: if_splits)
    from "1.prems"(1) True np obtain moves' where
      r: "slideMoves bits piece index multiStep d (indexPlusCoord destSq d) = Inr (moves', st')"
      and m: "moves = constructMove index destSq piece 0 0 0 # moves'"
      unfolding eq by (auto simp: ebind_eq_Inr)
    from "1.IH" [OF True np r indexPlusCoord_state]
    have "(snd st' \<or> (0 \<le> fst st' \<and> fst st' \<le> 63)) \<and>
      (\<forall>m \<in> set moves'. \<exists>dst. pieceMoveOf index piece dst m)" .
    moreover from True "1.prems"(2) have "pieceMoveOf index piece destSq (constructMove index destSq piece 0 0 0)"
      by (intro pieceMoveOfI) auto
    ultimately show ?thesis unfolding m by auto
  qed
qed


lemma concatE_member:
  "concatE f xs = Inr ys \<Longrightarrow> y \<in> set ys \<Longrightarrow> \<exists>x \<in> set xs. \<exists>zs. f x = Inr zs \<and> y \<in> set zs"
proof (induction xs arbitrary: ys)
  case Nil
  then show ?case by simp
next
  case (Cons x xs)
  from Cons.prems(1) obtain zs ws where
    1: "f x = Inr zs" and 2: "concatE f xs = Inr ws" and 3: "ys = zs @ ws"
    by (auto simp: ebind_eq_Inr)
  from Cons.prems(2) 3 consider "y \<in> set zs" | "y \<in> set ws" by auto
  then show ?case
  proof cases
    case 1
    with \<open>f x = Inr zs\<close> show ?thesis by auto
  next
    case 2
    from Cons.IH [OF \<open>concatE f xs = Inr ws\<close> 2] show ?thesis by auto
  qed
qed

lemma nonPawnDir_shape:
  assumes "nonPawnDir bits piece index ms d = Inr moves" "m \<in> set moves"
  shows "\<exists>dst. pieceMoveOf index piece dst m"
proof -
  from assms(1) obtain r0 where
    "slideMoves bits piece index ms d (indexPlusCoord index d) = Inr r0"
    unfolding nonPawnDir_def
    by (cases "slideMoves bits piece index ms d (indexPlusCoord index d)") auto
  then obtain moves0 destSq oob where
    s: "slideMoves bits piece index ms d (indexPlusCoord index d) = Inr (moves0, destSq, oob)"
    by (cases r0) auto
  from slideMoves_shape [OF s indexPlusCoord_state] have
    st: "oob \<or> (0 \<le> destSq \<and> destSq \<le> 63)"
    and ms0: "\<forall>m \<in> set moves0. \<exists>dst. pieceMoveOf index piece dst m"
    by auto
  from assms have "m \<in> set moves0 \<or> (\<not> oob \<and>
        (m = constructMove index destSq piece (getPiece bits destSq) CAPTURE 0 \<or>
         m = constructMove index destSq piece (getPiece bits destSq) 0 0))"
    unfolding nonPawnDir_def s by (auto simp: Let_def split: if_splits)
  then show ?thesis
  proof
    assume "m \<in> set moves0"
    with ms0 show ?thesis by blast
  next
    assume "\<not> oob \<and>
        (m = constructMove index destSq piece (getPiece bits destSq) CAPTURE 0 \<or>
         m = constructMove index destSq piece (getPiece bits destSq) 0 0)"
    with st have "pieceMoveOf index piece destSq m"
      by (auto intro!: pieceMoveOfI)
    then show ?thesis ..
  qed
qed

lemma legalMovesForNonPawns_shape:
  assumes "legalMovesForNonPawns bits piece index directions = Inr moves" "m \<in> set moves"
  shows "\<exists>dst. pieceMoveOf index piece dst m"
proof -
  from assms(1) obtain ms where
    "concatE (nonPawnDir bits piece index ms) directions = Inr moves"
    unfolding legalMovesForNonPawns_def by (auto simp: ebind_eq_Inr Let_def)
  from concatE_member [OF this assms(2)] show ?thesis
    by (auto dest: nonPawnDir_shape)
qed


lemma pawnDiag_shape:
  assumes "\<forall>m \<in> set (fst st). \<exists>dst. pieceMoveOf index pawn dst m \<and> \<bar>index - dst\<bar> \<noteq> 16"
    and "f = 1 \<or> f = - 1" "c = 1 \<or> c = - 1"
    and "m \<in> set (fst (pawnDiag bits pawn index st (f, c)))"
  shows "\<exists>dst. pieceMoveOf index pawn dst m \<and> \<bar>index - dst\<bar> \<noteq> 16"
proof (cases "m \<in> set (fst st)")
  case True
  with assms(1) show ?thesis by blast
next
  case False
  obtain destSq oob where ipc: "indexPlusCoord index (f, c) = (destSq, oob)"
    by (cases "indexPlusCoord index (f, c)") auto
  obtain moves bound where st: "st = (moves, bound)" by (cases st) auto
  from False assms(4) have noob: "\<not> oob"
    unfolding pawnDiag_def st ipc by (auto simp: Let_def split: if_splits)
  with ipc have ds: "0 \<le> destSq" "destSq \<le> 63" "destSq = index + f * 8 + c"
    using indexPlusCoord_inb [of index "(f, c)" destSq] by auto
  with assms(2,3) have far: "\<bar>index - destSq\<bar> \<noteq> 16" by auto
  from False assms(4) noob have
    "m \<in> set (map (constructMove index destSq pawn (getPiece bits destSq) (CAPTURE OR PROMOTION))
                [QUEEN, ROOK, BISHOP, KNIGHT])
     \<or> m = constructMove index destSq pawn (getPiece bits destSq) CAPTURE 0
     \<or> m = constructMove index destSq pawn PAWN CAPTURE 0"
    unfolding pawnDiag_def st ipc by (auto simp: Let_def split: if_splits)
  with ds(1,2) have "pieceMoveOf index pawn destSq m"
    by (auto intro!: pieceMoveOfI simp: piece_defs)
  with far show ?thesis by blast
qed


lemma legalMovesForPawn_unfold:
  assumes "f = (if whiteToMove bits \<noteq> 0 then - 1 else 1)"
    and "pawnDiag bits pawn index (pawnDiag bits pawn index ([], None) (f, - 1)) (f, 1) = (moves2, bound)"
    and "indexPlusCoord index (f, 0) = (destSq, oob)"
  shows "legalMovesForPawn bits pawn index =
     (if oob \<or> getPiece bits destSq \<noteq> 0 then Inr moves2
         else
           ebind (if isBackRank destSq
                  then (case bound of
                          None \<Rightarrow> Inl UnboundLocalError
                        | Some destPiece \<Rightarrow>
                            Inr (moves2 @ map (constructMove index destSq pawn destPiece 0)
                                           [QUEEN, ROOK, BISHOP, KNIGHT]))
                  else Inr (moves2 @ [constructMove index destSq pawn 0 0 0]))
             (\<lambda>moves.
                if index div BOARD_SIZE \<noteq> (if whiteToMove bits \<noteq> 0 then 6 else 1) then Inr moves
                else
                  (let double = index + 2 * BOARD_SIZE * f in
                   if getPiece bits double = 0
                   then Inr (moves @ [constructMove index double pawn 0 0 0])
                   else Inr moves)))"
  unfolding legalMovesForPawn_def Let_def assms(1) [symmetric]
  by (simp only: foldl.simps assms(2,3) prod.case)


lemma ebind_InrE:
  assumes "ebind m f = Inr y"
  obtains x where "m = Inr x" "f x = Inr y"
  using assms by (cases m) auto

lemma legalMovesForPawn_shape:
  assumes "legalMovesForPawn bits pawn index = Inr moves" "m \<in> set moves"
    and "0 \<le> index" "index \<le> 63"
  shows "\<exists>dst. pieceMoveOf index pawn dst m \<and>
           (\<bar>index - dst\<bar> = 16 \<longrightarrow>
              index div 8 = (if whiteToMove bits \<noteq> 0 then 6 else 1) \<and>
              dst = index + 16 * (if whiteToMove bits \<noteq> 0 then - 1 else 1))"
proof -
  define f :: int where "f = (if whiteToMove bits \<noteq> 0 then - 1 else 1)"
  have f: "f = 1 \<or> f = - 1" by (simp add: f_def)
  define st1 where "st1 = pawnDiag bits pawn index ([], None) (f, - 1)"
  define st2 where "st2 = pawnDiag bits pawn index st1 (f, 1)"
  have 1: "\<forall>m \<in> set (fst st1). \<exists>dst. pieceMoveOf index pawn dst m \<and> \<bar>index - dst\<bar> \<noteq> 16"
  proof
    fix m assume "m \<in> set (fst st1)"
    then show "\<exists>dst. pieceMoveOf index pawn dst m \<and> \<bar>index - dst\<bar> \<noteq> 16"
      unfolding st1_def using f
      by (intro pawnDiag_shape [where st = "([], None)" and f = f and c = "- 1" and bits = bits]) simp_all
  qed
  have 2: "\<forall>m \<in> set (fst st2). \<exists>dst. pieceMoveOf index pawn dst m \<and> \<bar>index - dst\<bar> \<noteq> 16"
  proof
    fix m assume "m \<in> set (fst st2)"
    then show "\<exists>dst. pieceMoveOf index pawn dst m \<and> \<bar>index - dst\<bar> \<noteq> 16"
      unfolding st2_def using f 1
      by (intro pawnDiag_shape [where st = st1 and f = f and c = 1 and bits = bits]) simp_all
  qed
  obtain destSq oob where ipc: "indexPlusCoord index (f, 0) = (destSq, oob)"
    by (cases "indexPlusCoord index (f, 0)") auto
  obtain moves2 bound where st2: "st2 = (moves2, bound)" by (cases st2) auto
  note eq = legalMovesForPawn_unfold [OF f_def st2 [unfolded st2_def st1_def] ipc]
  show ?thesis
  proof (cases "m \<in> set moves2")
    case True
    with 2 st2 show ?thesis by fastforce
  next
    case False
    have noob: "\<not> oob"
    proof
      assume oob
      with assms(1) have "moves = moves2" unfolding eq by simp
      with False assms(2) show False by simp
    qed
    with ipc have ds: "0 \<le> destSq" "destSq \<le> 63" "destSq = index + f * 8"
      using indexPlusCoord_inb [of index "(f, 0)" destSq] by auto
    have em: "getPiece bits destSq = 0"
    proof (rule ccontr)
      assume "getPiece bits destSq \<noteq> 0"
      with assms(1) have "moves = moves2" unfolding eq by simp
      with False assms(2) show False by simp
    qed
    note pm = pieceMoveOf_promo [OF ds(1,2), of 0, simplified] pieceMoveOfI [OF ds(1,2), of 0 0]
    from assms(1,2) False noob em have
      "pieceMoveOf index pawn destSq m
       \<or> (index div 8 = (if whiteToMove bits \<noteq> 0 then 6 else 1) \<and>
          m = constructMove index (index + 16 * f) pawn 0 0 0)"
      unfolding eq
      by (auto simp: ebind_eq_Inr Let_def BOARD_SIZE_def pm split: if_splits option.splits)
    then consider (three) "pieceMoveOf index pawn destSq m"
      | (dbl) "index div 8 = (if whiteToMove bits \<noteq> 0 then 6 else 1)"
              "m = constructMove index (index + 16 * f) pawn 0 0 0"
      by blast
    then show ?thesis
    proof cases
      case three
      moreover from ds(3) f have "\<bar>index - destSq\<bar> \<noteq> 16" by auto
      ultimately show ?thesis by blast
    next
      case dbl
      from dbl(1) have "0 \<le> index + 16 * f \<and> index + 16 * f \<le> 63"
        by (auto simp: f_def split: if_splits)
      then have "pieceMoveOf index pawn (index + 16 * f) m"
        unfolding dbl(2) by (intro pieceMoveOfI) auto
      with dbl(1) show ?thesis unfolding f_def by blast
    qed
  qed
qed


lemma legalMovesForPiece_shape:
  assumes "legalMovesForPiece bits piece index = Inr moves" "m \<in> set moves"
    and "0 \<le> index" "index \<le> 63"
  shows "\<exists>dst. pieceMoveOf index piece dst m \<and>
           (pieceType piece = PAWN \<longrightarrow> \<bar>index - dst\<bar> = 16 \<longrightarrow>
              index div 8 = (if whiteToMove bits \<noteq> 0 then 6 else 1) \<and>
              dst = index + 16 * (if whiteToMove bits \<noteq> 0 then - 1 else 1))"
proof (cases "pieceType piece = PAWN")
  case True
  with assms(1) have "legalMovesForPawn bits piece index = Inr moves"
    by (simp add: legalMovesForPiece_def)
  from legalMovesForPawn_shape [OF this assms(2-4)] show ?thesis by blast
next
  case False
  with assms(1) obtain directions where
    "legalMovesForNonPawns bits piece index directions = Inr moves"
    by (auto simp: legalMovesForPiece_def split: option.splits)
  from legalMovesForNonPawns_shape [OF this assms(2)] False show ?thesis by blast
qed

lemma bit_MOVE_SQ_MASK: "bit MOVE_SQ_MASK n \<longleftrightarrow> n < 6"
  by (simp add: MOVE_SQ_MASK_def bit_63_iff)

lemma bit_pieceType: "bit (pieceType x) n \<longleftrightarrow> n < 3 \<and> bit x n"
  by (auto simp: pieceType_def bit_and_iff bit_7_iff)

lemma bit_moveSrc: "bit (moveSrc m) n \<longleftrightarrow> n < 6 \<and> bit m n"
  by (auto simp: moveSrc_def bit_and_iff bit_MOVE_SQ_MASK)

lemma bit_moveDest: "bit (moveDest m) n \<longleftrightarrow> n < 6 \<and> bit m (6 + n)"
  by (auto simp: moveDest_def bit_and_iff bit_drop_bit_eq bit_push_bit_iff bit_MOVE_SQ_MASK DEST_SQ_def)

lemma castleFlag_iff_bit: "castleFlag m \<longleftrightarrow> bit m 22"
proof -
  have "push_bit MOVE_META CASTLE = push_bit 22 (1 :: int)"
    by (simp add: MOVE_META_def CASTLE_def)
  then show ?thesis
    unfolding castleFlag_def by (simp only: bit_iff_and_push_bit_not_eq_0)
qed

lemma bit_check_flag: "bit (push_bit MOVE_META CHECK) n \<longleftrightarrow> n = 23"
proof -
  have "push_bit MOVE_META CHECK = (2 :: int) ^ 23"
    by (simp add: MOVE_META_def CHECK_def)
  then show ?thesis by (simp only: bit_exp_iff) simp
qed

lemma bit_constructMove:
  "bit (constructMove s d sp dp meta promo) n \<longleftrightarrow>
     (21 \<le> n \<and> bit meta (n - 21)) \<or> (18 \<le> n \<and> bit promo (n - 18)) \<or>
     (15 \<le> n \<and> n < 18 \<and> bit dp (n - 15)) \<or> (12 \<le> n \<and> n < 15 \<and> bit sp (n - 12)) \<or>
     (6 \<le> n \<and> bit d (n - 6)) \<or> bit s n"
  by (auto simp: constructMove_def Let_def bit_or_iff bit_push_bit_iff bit_pieceType move_defs)

lemma pieceMoveOf_bits:
  assumes "pieceMoveOf i piece d m" "0 \<le> i" "i \<le> 63"
  shows "n < 6 \<Longrightarrow> bit m n = bit i n"
    and "n < 6 \<Longrightarrow> bit m (6 + n) = bit d n"
    and "\<not> bit m 22"
proof -
  from assms(1) obtain dp meta promo where
    m: "m = constructMove i d piece dp meta promo"
    and d: "0 \<le> d" "d \<le> 63"
    and meta: "meta = 0 \<or> meta = CAPTURE \<or> meta = (CAPTURE OR PROMOTION)"
    and promo: "0 \<le> promo" "promo \<le> 7"
    unfolding pieceMoveOf_def by blast
  have hi: "\<not> bit i k" if "6 \<le> k" for k
    using assms(2,3) that by (intro small_no_high_bit [of i 6]) auto
  have hd: "\<not> bit d k" if "6 \<le> k" for k
    using d that by (intro small_no_high_bit [of d 6]) auto
  have hp: "\<not> bit promo k" if "3 \<le> k" for k
    using promo that by (intro small_no_high_bit [of promo 3]) auto
  have hm: "\<not> bit meta 1"
    using meta by (auto simp: CAPTURE_def PROMOTION_def)
  show "n < 6 \<Longrightarrow> bit m n = bit i n"
    unfolding m bit_constructMove by auto
  show "n < 6 \<Longrightarrow> bit m (6 + n) = bit d n"
    unfolding m bit_constructMove using hi [of "6 + n"] by auto
  show "\<not> bit m 22"
    unfolding m bit_constructMove using hi [of 22] hd [of 16] hp [of 4] hm by auto
qed

lemma small_eq_take_bit:
  fixes p :: int
  shows "0 \<le> p \<Longrightarrow> p \<le> 63 \<Longrightarrow> take_bit 6 p = p"
  by (simp add: take_bit_int_eq_self)

lemma pieceMoveOf_fields:
  assumes "pieceMoveOf i piece d m" "0 \<le> i" "i \<le> 63"
    and "m' = m \<or> m' = m OR push_bit MOVE_META CHECK"
  shows "moveSrc m' = i" "moveDest m' = d" "\<not> castleFlag m'"
proof -
  note b = pieceMoveOf_bits [OF assms(1-3)]
  from assms(1) have d: "0 \<le> d" "d \<le> 63" unfolding pieceMoveOf_def by auto
  have same: "bit m' n = bit m n" if "n < 23" for n
    using assms(4) that by (auto simp: bit_or_iff bit_check_flag)
  have "moveSrc m' = take_bit 6 i"
    by (rule bit_eqI) (auto simp: bit_moveSrc bit_take_bit_iff same b(1))
  then show "moveSrc m' = i" using assms(2,3) by (simp add: small_eq_take_bit)
  have "moveDest m' = take_bit 6 d"
    by (rule bit_eqI) (auto simp: bit_moveDest bit_take_bit_iff same b(2))
  then show "moveDest m' = d" using d by (simp add: small_eq_take_bit)
  show "\<not> castleFlag m'"
    using b(3) same [of 22] by (simp add: castleFlag_iff_bit)
qed


lemma castleSide_moves:
  assumes "castleSide bits shift = Inr ms" "m \<in> set ms"
  shows "m = 4219268 \<or> m = 4219012 \<or> m = 4222908 \<or> m = 4222652"
proof -
  from assms have "\<exists>c. castleMap c = Some m"
    unfolding castleSide_def Let_def
    by (auto simp: ebind_eq_Inr split: if_splits option.splits)
  then show ?thesis
    by (auto simp: castleMap_def split: if_splits)
qed

lemma legalCastleMoves_moves:
  assumes "legalCastleMoves bits = Inr ms" "m \<in> set ms"
  shows "m = 4219268 \<or> m = 4219012 \<or> m = 4222908 \<or> m = 4222652"
  using concatE_member [OF assms [unfolded legalCastleMoves_def]]
  by (auto dest: castleSide_moves)

lemma candidateMoves_origin:
  assumes "candidateMoves bits = Inr cands" "m \<in> set cands"
  shows "(\<exists>i. 0 \<le> i \<and> i \<le> 63 \<and> getPiece bits i \<noteq> 0 \<and> \<not> isOpponentPiece bits (getPiece bits i) \<and>
            (\<exists>ms. legalMovesForPiece bits (getPiece bits i) i = Inr ms \<and> m \<in> set ms))
         \<or> m = 4219268 \<or> m = 4219012 \<or> m = 4222908 \<or> m = 4222652"
proof -
  from assms(1) obtain moves castles where
    1: "concatE (squareMoves bits) [0..63] = Inr moves"
    and 2: "legalCastleMoves bits = Inr castles"
    and 3: "cands = moves @ castles"
    unfolding candidateMoves_def by (auto simp: ebind_eq_Inr)
  from assms(2) 3 consider "m \<in> set moves" | "m \<in> set castles" by auto
  then show ?thesis
  proof cases
    case 1
    from concatE_member [OF \<open>concatE (squareMoves bits) [0..63] = Inr moves\<close> 1]
    obtain i zs where i: "i \<in> set [0..63]" and zs: "squareMoves bits i = Inr zs" "m \<in> set zs"
      by blast
    from zs have "getPiece bits i \<noteq> 0 \<and> \<not> isOpponentPiece bits (getPiece bits i) \<and>
        legalMovesForPiece bits (getPiece bits i) i = Inr zs"
      unfolding squareMoves_def Let_def by (auto split: if_splits)
    with i zs(2) show ?thesis by auto
  next
    case 2
    with legalCastleMoves_moves [OF \<open>legalCastleMoves bits = Inr castles\<close>] show ?thesis by blast
  qed
qed

lemma kingCheckMove_shape:
  assumes "kingCheckMove bits move = Inr ms" "m \<in> set ms"
  shows "(m = move \<or> m = move OR push_bit MOVE_META CHECK) \<and>
         (\<exists>out b'. makeMove bits (MoveInt move) = Inr (out, b'))"
  using assms unfolding kingCheckMove_def Let_def
  by (auto simp: ebind_eq_Inr split: if_splits)

lemma computeLegalMoves_origin:
  assumes "computeLegalMoves bits = Inr ms" "m \<in> set ms"
  shows "\<exists>cands m0. candidateMoves bits = Inr cands \<and> m0 \<in> set cands \<and>
           (m = m0 \<or> m = m0 OR push_bit MOVE_META CHECK) \<and>
           (\<exists>out b'. makeMove bits (MoveInt m0) = Inr (out, b'))"
proof -
  from assms(1) obtain fm where fm: "filteredMoves bits = Inr fm"
    and ms: "ms = sort_key (\<lambda>m. - moveMeta m) fm"
    unfolding computeLegalMoves_def by (auto simp: ebind_eq_Inr)
  from fm obtain cands where c: "candidateMoves bits = Inr cands"
    and k: "concatE (kingCheckMove bits) cands = Inr fm"
    unfolding filteredMoves_def kingCheckAnalysis_def by (auto simp: ebind_eq_Inr)
  from assms(2) ms have "m \<in> set fm" by simp
  from concatE_member [OF k this] obtain m0 zs where
    "m0 \<in> set cands" "kingCheckMove bits m0 = Inr zs" "m \<in> set zs" by blast
  with c kingCheckMove_shape [of bits m0 zs m] show ?thesis by blast
qed

lemma moveSrc_range: "0 \<le> moveSrc m \<and> moveSrc m \<le> 63"
proof -
  have "moveSrc m = take_bit 6 m"
    by (rule bit_eqI) (auto simp: bit_moveSrc bit_take_bit_iff)
  then show ?thesis
    using take_bit_int_less_exp [of 6 m] by simp
qed

lemma moveDest_range: "0 \<le> moveDest m \<and> moveDest m \<le> 63"
proof -
  have "moveDest m = take_bit 6 (drop_bit 6 m)"
    by (rule bit_eqI) (auto simp: bit_moveDest bit_take_bit_iff bit_drop_bit_eq)
  then show ?thesis
    using take_bit_int_less_exp [of 6 "drop_bit 6 m"] by simp
qed

lemma decodeMove_MoveInt:
  "decodeMove (MoveInt m) = Inr (m, moveSrc m, moveDest m, movePromo m)"
  by (simp add: decodeMove_def moveSrc_def moveDest_def movePromo_def)

lemma makeMove_MoveInt:
  "makeMove b (MoveInt m) =
     ebind (if getPiece b (moveSrc m) = 0 \<or> isOpponentPiece b (getPiece b (moveSrc m))
            then ebind (prettyPrintVerbose b) (\<lambda>out. Inr (out @ [PrintIllegalMove m]))
            else Inr [])
       (\<lambda>out. Inr (out, moveBits b m (moveSrc m) (moveDest m) (movePromo m)))"
  using moveSrc_range [of m] moveDest_range [of m]
  by (simp add: makeMove_def decodeMove_MoveInt Let_def)

lemma makeMove_MoveInt_same_source:
  assumes "makeMove b (MoveInt m0) = Inr r" "moveSrc m = moveSrc m0"
  shows "\<exists>out. makeMove b (MoveInt m) = Inr (out, moveBits b m (moveSrc m) (moveDest m) (movePromo m))"
  using assms unfolding makeMove_MoveInt
  by (auto simp: ebind_eq_Inr split: if_splits)


lemma movePromo_nonneg: "0 \<le> movePromo m"
proof -
  have "movePromo m = take_bit 3 (drop_bit 18 m)"
    by (rule bit_eqI)
       (auto simp: movePromo_def move_defs bit_and_iff bit_push_bit_iff bit_drop_bit_eq
          bit_take_bit_iff bit_7_iff)
  then show ?thesis by simp
qed

lemma castle_constant_fields:
  assumes "m0 = 4219268 \<or> m0 = 4219012 \<or> m0 = 4222908 \<or> m0 = 4222652"
    and "m = m0 \<or> m = m0 OR push_bit MOVE_META CHECK"
  shows "castleFlag m" "moveSrc m = moveSrc m0" "\<bar>moveSrc m - moveDest m\<bar> = 2"
  using assms
  by (auto simp: castleFlag_def moveSrc_def moveDest_def move_defs)

lemma ep_square_nonzero: "(if w then 40 else 16) OR (x AND 7) \<noteq> (0 :: int)"
  by (simp add: or_eq_0_iff)

lemma low_three_bits_cases:
  fixes c :: int
  assumes "0 \<le> c" "c \<le> 7"
  shows "c \<in> {0, 1, 2, 3, 4, 5, 6, 7}"
  using assms by (simp add: insert_iff) arith

lemma ep_square_white:
  fixes i :: int
  assumes "i div 8 = 6"
  shows "40 OR (i AND 7) = i - 8"
proof -
  define c where "c = i - 48"
  have i: "i = 48 + c" by (simp add: c_def)
  from assms have "0 \<le> c" "c \<le> 7" unfolding c_def by presburger+
  then have "c \<in> {0, 1, 2, 3, 4, 5, 6, 7}" by (rule low_three_bits_cases)
  then show ?thesis unfolding i by auto
qed

lemma ep_square_black:
  fixes i :: int
  assumes "i div 8 = 1"
  shows "16 OR (i AND 7) = i + 8"
proof -
  define c where "c = i - 8"
  have i: "i = 8 + c" by (simp add: c_def)
  from assms have "0 \<le> c" "c \<le> 7" unfolding c_def by presburger+
  then have "c \<in> {0, 1, 2, 3, 4, 5, 6, 7}" by (rule low_three_bits_cases)
  then show ?thesis unfolding i by auto
qed

lemma legal_move_cases:
  assumes "computeLegalMoves b = Inr ms" "m \<in> set ms"
  obtains (piece) i dst where
      "0 \<le> i" "i \<le> 63" "getPiece b i \<noteq> 0" "\<not> isOpponentPiece b (getPiece b i)"
      "moveSrc m = i" "moveDest m = dst" "0 \<le> dst" "dst \<le> 63" "\<not> castleFlag m"
      "pieceType (getPiece b i) = PAWN \<Longrightarrow> \<bar>i - dst\<bar> = 16 \<Longrightarrow>
         i div 8 = (if whiteToMove b \<noteq> 0 then 6 else 1) \<and>
         dst = i + 16 * (if whiteToMove b \<noteq> 0 then - 1 else 1)"
      "\<exists>out. makeMove b (MoveInt m) = Inr (out, moveBits b m i dst (movePromo m))"
    | (castle) "castleFlag m" "\<bar>moveSrc m - moveDest m\<bar> = 2"
      "\<exists>out. makeMove b (MoveInt m) = Inr (out, moveBits b m (moveSrc m) (moveDest m) (movePromo m))"
proof -
  from computeLegalMoves_origin [OF assms] obtain cands m0 out0 b0 where
    c: "candidateMoves b = Inr cands" "m0 \<in> set cands"
    and mm: "m = m0 \<or> m = m0 OR push_bit MOVE_META CHECK"
    and mk: "makeMove b (MoveInt m0) = Inr (out0, b0)"
    by blast
  from candidateMoves_origin [OF c] consider
      (p) i zs where "0 \<le> i" "i \<le> 63" "getPiece b i \<noteq> 0"
        "\<not> isOpponentPiece b (getPiece b i)"
        "legalMovesForPiece b (getPiece b i) i = Inr zs" "m0 \<in> set zs"
    | (c) "m0 = 4219268 \<or> m0 = 4219012 \<or> m0 = 4222908 \<or> m0 = 4222652"
    by blast
  then show ?thesis
  proof cases
    case p
    from legalMovesForPiece_shape [OF p(5,6,1,2)] obtain dst where
      sh: "pieceMoveOf i (getPiece b i) dst m0"
      and dbl: "pieceType (getPiece b i) = PAWN \<longrightarrow> \<bar>i - dst\<bar> = 16 \<longrightarrow>
              i div 8 = (if whiteToMove b \<noteq> 0 then 6 else 1) \<and>
              dst = i + 16 * (if whiteToMove b \<noteq> 0 then - 1 else 1)"
      by blast
    note f = pieceMoveOf_fields [OF sh p(1,2) mm]
    note f0 = pieceMoveOf_fields [OF sh p(1,2), of m0, simplified]
    from sh have d: "0 \<le> dst" "dst \<le> 63" unfolding pieceMoveOf_def by auto
    from makeMove_MoveInt_same_source [OF mk, of m] f f0
    have "\<exists>out. makeMove b (MoveInt m) = Inr (out, moveBits b m i dst (movePromo m))"
      by simp
    with p(1-4) f d dbl show ?thesis by (intro piece [of i dst]) auto
  next
    case c
    note f = castle_constant_fields [OF c mm]
    from makeMove_MoveInt_same_source [OF mk f(2)] f(1,3) show ?thesis
      by (intro castle)
  qed
qed

section \<open>The order of the legal moves\<close>

lemma checkFlag_iff_bit: "checkFlag m \<longleftrightarrow> bit m 23"
proof -
  have "push_bit MOVE_META CHECK = push_bit 23 (1 :: int)"
    by (simp add: MOVE_META_def CHECK_def)
  then show ?thesis
    unfolding checkFlag_def by (simp only: bit_iff_and_push_bit_not_eq_0)
qed

lemma promotionFlag_iff_bit: "promotionFlag m \<longleftrightarrow> bit m 24"
proof -
  have "push_bit MOVE_META PROMOTION = push_bit 24 (1 :: int)"
    by (simp add: MOVE_META_def PROMOTION_def)
  then show ?thesis
    unfolding promotionFlag_def by (simp only: bit_iff_and_push_bit_not_eq_0)
qed

lemma bit_MOVE_META_MASK: "bit MOVE_META_MASK n \<longleftrightarrow> n < 4"
  by (simp add: MOVE_META_MASK_def bit_15_iff)

lemma moveMeta_eq: "moveMeta m = 2097152 * (drop_bit 21 m mod 16)"
proof -
  have "moveMeta m = push_bit 21 (take_bit 4 (drop_bit 21 m))"
    by (rule bit_eqI)
       (auto simp: moveMeta_def MOVE_META_def bit_and_iff bit_push_bit_iff
          bit_take_bit_iff bit_drop_bit_eq bit_MOVE_META_MASK)
  then show ?thesis
    by (simp add: push_bit_eq_mult take_bit_eq_mod)
qed

lemma flags_of_meta:
  "checkFlag m \<longleftrightarrow> odd ((drop_bit 21 m mod 16) div 4)"
  "promotionFlag m \<longleftrightarrow> odd ((drop_bit 21 m mod 16) div 8)"
proof -
  have e: "drop_bit 21 m mod 16 = take_bit 4 (drop_bit 21 m)"
    by (simp add: take_bit_eq_mod)
  have "odd ((drop_bit 21 m mod 16) div 4) \<longleftrightarrow> bit (take_bit 4 (drop_bit 21 m)) 2"
    unfolding e by (simp add: bit_iff_odd)
  also have "\<dots> \<longleftrightarrow> bit m 23"
    by (simp add: bit_take_bit_iff bit_drop_bit_eq)
  finally show "checkFlag m \<longleftrightarrow> odd ((drop_bit 21 m mod 16) div 4)"
    by (simp add: checkFlag_iff_bit)
  have "odd ((drop_bit 21 m mod 16) div 8) \<longleftrightarrow> bit (take_bit 4 (drop_bit 21 m)) 3"
    unfolding e by (simp add: bit_iff_odd)
  also have "\<dots> \<longleftrightarrow> bit m 24"
    by (simp add: bit_take_bit_iff bit_drop_bit_eq)
  finally show "promotionFlag m \<longleftrightarrow> odd ((drop_bit 21 m mod 16) div 8)"
    by (simp add: promotionFlag_iff_bit)
qed

lemma meta_order_check_bit: fixes a c :: int
  assumes r: "0 \<le> a" "a < 16" "0 \<le> c" "c < 16" and "c \<le> a" "odd (a div 8) = odd (c div 8)" "odd (c div 4)"
  shows "odd (a div 4)"
proof -
  have da: "a = 8 * (a div 8) + 4 * ((a div 4) mod 2) + a mod 4" by presburger
  have dc: "c = 8 * (c div 8) + 4 * ((c div 4) mod 2) + c mod 4" by presburger
  from r have pa: "a div 8 = 0 \<or> a div 8 = 1" and pc: "c div 8 = 0 \<or> c div 8 = 1" by auto
  with assms(6) have pe: "a div 8 = c div 8" by auto
  from assms(7) have kc: "(c div 4) mod 2 = 1" by presburger
  have ka: "(a div 4) mod 2 = 0 \<or> (a div 4) mod 2 = 1" by presburger
  have ra: "0 \<le> a mod 4" "a mod 4 < 4" "0 \<le> c mod 4" "c mod 4 < 4" by simp_all
  have "(a div 4) mod 2 = 1"
  proof (rule ccontr)
    assume "(a div 4) mod 2 \<noteq> 1"
    with ka have k0: "(a div 4) mod 2 = 0" by simp
    from da k0 ra have "a \<le> 8 * (a div 8) + 3" by linarith
    moreover from dc kc ra have "8 * (c div 8) + 4 \<le> c" by linarith
    ultimately show False using pe assms(5) by linarith
  qed
  then show ?thesis by presburger
qed

lemma check_first_within_promotion_class:
  assumes "moveMeta y \<le> moveMeta x" "promotionFlag x = promotionFlag y" "checkFlag y"
  shows "checkFlag x"
proof -
  define a where "a = drop_bit 21 x mod 16"
  define c where "c = drop_bit 21 y mod 16"
  have r: "0 \<le> a" "a < 16" "0 \<le> c" "c < 16" by (simp_all add: a_def c_def)
  from assms(1) have "c \<le> a" by (simp add: moveMeta_eq a_def c_def)
  moreover from assms(2) have "odd (a div 8) = odd (c div 8)"
    by (simp add: flags_of_meta a_def c_def)
  moreover from assms(3) have "odd (c div 4)" by (simp add: flags_of_meta a_def c_def)
  ultimately have "odd (a div 4)" using r by (intro meta_order_check_bit [of a c])
  then show ?thesis by (simp add: flags_of_meta a_def)
qed

section \<open>Move text\<close>

lemma algebraicToIndex_square:
  assumes "isSquareText s"
  shows "\<exists>i. algebraicToIndex s = Inr i \<and> 0 \<le> i \<and> i \<le> 63"
proof -
  from assms obtain f r where s: "s = [f, r]"
    and f: "f \<in> set ''abcdefgh''" and r: "r \<in> set ''12345678''"
    unfolding isSquareText_def by (auto split: list.splits)
  from r have "\<exists>n. int_of_char r = Inr n \<and> 1 \<le> n \<and> n \<le> 8"
    by (auto simp: int_of_char_def isdigit_def)
  then obtain n where n: "int_of_char r = Inr n" "1 \<le> n" "n \<le> 8" by blast
  from f have "0 \<le> int (of_char f) - int (of_char CHR ''a'') \<and>
      int (of_char f) - int (of_char CHR ''a'') \<le> 7"
    by auto
  with n show ?thesis
    unfolding s algebraicToIndex_def by (auto simp: BOARD_SIZE_def)
qed

lemma decodeMove_wellFormed:
  assumes "wellFormedMoveText t"
  shows "\<exists>move src dest promo. decodeMove (MoveStr t) = Inr (move, src, dest, promo) \<and>
           0 \<le> src \<and> src \<le> 63 \<and> 0 \<le> dest \<and> dest \<le> 63"
proof -
  from assms obtain src dest where
    s: "algebraicToIndex (take 2 t) = Inr src" "0 \<le> src" "src \<le> 63"
    and d: "algebraicToIndex (take 2 (drop 2 t)) = Inr dest" "0 \<le> dest" "dest \<le> 63"
    unfolding wellFormedMoveText_def
    using algebraicToIndex_square [of "take 2 t"] algebraicToIndex_square [of "take 2 (drop 2 t)"]
    by blast
  from assms have "\<exists>promo. (if length t < 5 then Inr 0
                 else (case PIECE_MAP (t ! 4) of None \<Rightarrow> Inl KeyError | Some p \<Rightarrow> Inr p))
                = Inr promo"
    unfolding wellFormedMoveText_def by (auto simp: PIECE_MAP_def)
  then obtain promo where "(if length t < 5 then Inr 0
                 else (case PIECE_MAP (t ! 4) of None \<Rightarrow> Inl KeyError | Some p \<Rightarrow> Inr p))
                = Inr promo" ..
  with s d show ?thesis
    unfolding decodeMove_def by simp
qed

lemma makeMove_errors:
  assumes "makeMove b mv = Inl e"
  shows "e = IndexError \<or> e = ValueError \<or> e = KeyError"
proof -
  have a: "algebraicToIndex s = Inl x \<Longrightarrow> x = IndexError \<or> x = ValueError" for s x
    unfolding algebraicToIndex_def int_of_char_def
    by (auto simp: ebind_def split: list.splits if_splits sum.splits)
  have d: "decodeMove mv = Inl x \<Longrightarrow> x = IndexError \<or> x = ValueError \<or> x = KeyError" for x
    unfolding decodeMove_def
    by (auto simp: ebind_def split: move.splits sum.splits if_splits option.splits dest: a)
  have p: "prettyPrintVerbose b = Inl x \<Longrightarrow> x = IndexError" for x
    unfolding prettyPrintVerbose_def by (auto split: if_splits)
  from assms show ?thesis
    unfolding makeMove_def Let_def
    by (auto simp: ebind_def split: sum.splits if_splits prod.splits dest: d p)
qed

lemma onBoard_wellFormed: "wellFormedMoveText t \<Longrightarrow> onBoard (MoveStr t)"
  using decodeMove_wellFormed [of t] by (auto simp: onBoard_def)

lemma makeMove_enpassant:
  assumes "makeMove b mv = Inr (out, b')" "onBoard mv"
    and "decodeMove mv = Inr (move, src, dest, promo)"
  shows "getEnpassant b' \<noteq> 0 \<longleftrightarrow> pieceType (getPiece b src) = PAWN \<and> \<bar>src - dest\<bar> = 16"
proof -
  from assms(1) obtain move' src' dest' promo' where
    d: "decodeMove mv = Inr (move', src', dest', promo')" and r: "0 \<le> dest'" "0 \<le> promo'"
    and b': "b' = moveBits b move' src' dest' promo'"
    by (rule makeMove_Inr_moveBits)
  from d assms(3) have e: "move' = move" "src' = src" "dest' = dest" "promo' = promo" by simp_all
  from assms(2,3) have "dest \<le> 63" by (simp add: onBoard_def)
  with r e have ep: "getEnpassant b' =
      (if pieceType (getPiece b src) = PAWN \<and> \<bar>src - dest\<bar> = 16
       then (if whiteToMove b \<noteq> 0 then 40 else 16) OR (src AND 7) else 0)"
    unfolding b' e by (intro getEnpassant_moveBits) simp_all
  show ?thesis
    unfolding ep using ep_square_nonzero [of "whiteToMove b \<noteq> 0" src] by auto
qed

section \<open>The claims\<close>

text \<open>
  C1. The specification: when the moved piece is a pawn reaching the last rank, the
  destination receives a piece of the mover's colour of the requested promotion kind, a
  queen when none is requested. \<open>makeMove\<close> computes
  \<open>(QUEEN if promo > 0 else promo) | sideToMove\<close>, with the two branches the wrong way round.
  In the position below the generator offers the four promotions of the pawn on a7; the
  one that asks for a rook puts a white queen on a8, and the text \<open>a7a8\<close> with no
  promotion letter puts there the nibble 8, a white piece of kind EMPTY.
\<close>

theorem promotion_ignores_requested_kind:
  "ebind (createFromFen ''8/P7/8/8/8/8/8/k6K w - - 0 1'') (\<lambda>b.
   ebind (legalMovesForPiece b (getPiece b 8) 8) (\<lambda>moves.
   ebind (makeMove b (MoveInt (constructMove 8 0 (PAWN OR 8) 0 0 ROOK))) (\<lambda>(out1, b1).
   ebind (makeMove b (MoveStr ''a7a8'')) (\<lambda>(out2, b2).
     Inr (getPiece b 8, moves, getPiece b1 0, getPiece b2 0)))))
   = Inr (PAWN OR 8, map (constructMove 8 0 (PAWN OR 8) 0 0) [QUEEN, ROOK, BISHOP, KNIGHT],
          QUEEN OR 8, EMPTY OR 8)"
  by code_simp

text \<open>
  C3. The specification: the attack detector reports a pawn attack exactly when an enemy
  pawn stands on one of the two squares it attacks the given square from, and its result
  depends only on the board, the square and the defender, not on the side to move.
  \<open>isSquareAttacked\<close> takes the direction of the pawn test from \<open>whiteToMove\<close> and not from
  the defender. The two positions below have the same board, a white pawn on d7 next to
  the black king on e8: with black to move the king's square is reported as not
  attacked, with white to move as attacked.
\<close>

theorem pawn_attack_depends_on_side_to_move:
  "ebind (createFromFen ''4k3/3P4/8/8/8/8/8/4K3 b - - 0 1'') (\<lambda>b.
   ebind (createFromFen ''4k3/3P4/8/8/8/8/8/4K3 w - - 0 1'') (\<lambda>w.
   ebind (isSquareAttacked b 4 (Some KING)) (\<lambda>attackedWithBlackToMove.
   ebind (isSquareAttacked w 4 (Some KING)) (\<lambda>attackedWithWhiteToMove.
     Inr (w = b XOR push_bit SIDE_TO_MOVE_START 1, getPiece b 4, getPiece b 11,
          attackedWithBlackToMove, attackedWithWhiteToMove)))))
   = Inr (True, KING, PAWN OR 8, False, True)"
  by code_simp

text \<open>
  C4. The specification: a castle move is legal only if the king's start,
  transit and destination squares are not attacked in the position before the move.
  \<open>legalCastleMoves\<close> asks \<open>isSquareAttacked\<close> about the position whose side to move is
  the defender, where the pawn test looks on the wrong side of the square. Below black
  has the right k, the white pawn on g7 attacks the transit square f8, the detector
  reports f8 as not attacked (it reports the attack on the same board once white is to
  move), and the castle move e8g8 (4219268) is a legal move.
\<close>

theorem castle_through_pawn_attack_is_legal:
  "ebind (createFromFen ''4k2r/6P1/K7/8/8/8/8/8 b k - 0 1'') (\<lambda>b.
   ebind (isSquareAttacked b 5 (Some (sideToMove b OR KING))) (\<lambda>attacked.
   ebind (isSquareAttacked (b XOR push_bit SIDE_TO_MOVE_START 1) 5 (Some (sideToMove b OR KING)))
     (\<lambda>attackedWithWhiteToMove.
   ebind (computeLegalMoves b) (\<lambda>moves.
     Inr (hasRight b 0, getPiece b 14, attacked, attackedWithWhiteToMove, moves)))))
   = Inr (True, PAWN OR 8, False, True,
          [8406471, 4219268, 24772, 25284, 25348, 25412, 17351, 18375, 18887,
           19399, 19911, 20423, 16775, 16711])"
  by code_simp

text \<open>
  C6. The specification: a move onto the opponent's original rook square clears exactly
  the opponent's right of that rook, and no other move clears a right of the opponent.
  \<open>castleLogic\<close> compares the destination row with \<open>7 if whiteToMove else 0\<close>, the mover's
  own home row, and picks the right from the source column. Below white's bishop takes
  the rook on a8 and black keeps both rights (3); white's king steps from e1 to f1 and
  black loses the right q (3 becomes 1).
\<close>

theorem rook_capture_keeps_right_and_king_step_clears_it:
  "ebind (createFromFen ''r3k2r/8/8/8/8/8/6B1/4K3 w kq - 0 1'') (\<lambda>b.
   ebind (legalMovesForPiece b (getPiece b 54) 54) (\<lambda>bishop.
   ebind (legalMovesForPiece b (getPiece b 60) 60) (\<lambda>king.
   ebind (makeMove b (MoveInt (constructMove 54 0 (BISHOP OR 8) ROOK CAPTURE 0))) (\<lambda>(out1, b1).
   ebind (makeMove b (MoveInt (constructMove 60 61 (KING OR 8) 0 0 0))) (\<lambda>(out2, b2).
     Inr (constructMove 54 0 (BISHOP OR 8) ROOK CAPTURE 0 \<in> set bishop,
          constructMove 60 61 (KING OR 8) 0 0 0 \<in> set king,
          getPiece b 0, getCastles b, getPiece b1 0, getCastles b1, getCastles b2))))))
   = Inr (True, True, ROOK, 3, BISHOP OR 8, 3, 1)"
  by code_simp

text \<open>
  C7. Applying a move never sets a castling right: a right the successor has, the
  predecessor had, and so along any sequence of applied moves. The moves are those whose
  squares are on the board: every packed move and every well-formed move text.
\<close>

theorem castling_rights_never_set:
  "(makeMove b mv = Inr (out, b') \<and> onBoard mv \<and> hasRight b' n \<longrightarrow> hasRight b n) \<and>
   (makeMoves b mvs = Inr b'' \<and> list_all onBoard mvs \<and> hasRight b'' m \<longrightarrow> hasRight b m) \<and>
   onBoard (MoveInt packed) \<and>
   (wellFormedMoveText t \<longrightarrow> onBoard (MoveStr t))"
  using makeMove_rights makeMoves_rights onBoard_MoveInt onBoard_wellFormed by blast

theorem castling_rights_never_set_witness:
  "createFromFen ''r3k2r/p7/8/8/8/8/8/4K3 b kq - 0 1''
     = Inr 694777271282804069922040076217137847978841492768399642902159206534302243618820 \<and>
   makeMove 694777271282804069922040076217137847978841492768399642902159206534302243618820
       (MoveStr ''a7a6'')
     = Inr ([], 810569360520120265345611061225825755832111477434040206941635237286284787843076) \<and>
   onBoard (MoveStr ''a7a6'') \<and>
   hasRight 810569360520120265345611061225825755832111477434040206941635237286284787843076 1 \<and>
   hasRight 694777271282804069922040076217137847978841492768399642902159206534302243618820 1 \<and>
   makeMoves 694777271282804069922040076217137847978841492768399642902159206534302243618820
       [MoveStr ''a7a6'', MoveInt 28412]
     = Inr 231585724465814071933430355402688965760241318379690894245521971165327174008836 \<and>
   list_all onBoard [MoveStr ''a7a6'', MoveInt 28412] \<and>
   hasRight 231585724465814071933430355402688965760241318379690894245521971165327174008836 0 \<and>
   hasRight 694777271282804069922040076217137847978841492768399642902159206534302243618820 0"
proof -
  have h: "createFromFen ''r3k2r/p7/8/8/8/8/8/4K3 b kq - 0 1''
     = Inr 694777271282804069922040076217137847978841492768399642902159206534302243618820 \<and>
   makeMove 694777271282804069922040076217137847978841492768399642902159206534302243618820
       (MoveStr ''a7a6'')
     = Inr ([], 810569360520120265345611061225825755832111477434040206941635237286284787843076) \<and>
   onBoard (MoveStr ''a7a6'') \<and>
   hasRight 810569360520120265345611061225825755832111477434040206941635237286284787843076 1 \<and>
   makeMoves 694777271282804069922040076217137847978841492768399642902159206534302243618820
       [MoveStr ''a7a6'', MoveInt 28412]
     = Inr 231585724465814071933430355402688965760241318379690894245521971165327174008836 \<and>
   list_all onBoard [MoveStr ''a7a6'', MoveInt 28412] \<and>
   hasRight 231585724465814071933430355402688965760241318379690894245521971165327174008836 0"
    by code_simp
  with castling_rights_never_set
         [of 694777271282804069922040076217137847978841492768399642902159206534302243618820
             "MoveStr ''a7a6''" "[]"
             810569360520120265345611061225825755832111477434040206941635237286284787843076 1
             "[MoveStr ''a7a6'', MoveInt 28412]"
             231585724465814071933430355402688965760241318379690894245521971165327174008836 0]
  show ?thesis by blast
qed

lemma legal_moves_pawn_position:
  "computeLegalMoves 69324642199981295398645923846 = Inr [24640, 25152, 5128, 5640]"
  by code_simp

lemma legal_move_enpassant:
  assumes "computeLegalMoves b = Inr ms" "m \<in> set ms"
  shows "\<exists>out b'. makeMove b (MoveInt m) = Inr (out, b') \<and>
           (getEnpassant b' \<noteq> 0 \<longleftrightarrow> isDoubleAdvance b m) \<and>
           (isDoubleAdvance b m \<longrightarrow> getEnpassant b' = (moveSrc m + moveDest m) div 2)"
  using assms
proof (cases rule: legal_move_cases)
  case (piece i dst)
  from piece(11) obtain out where
    mk: "makeMove b (MoveInt m) = Inr (out, moveBits b m i dst (movePromo m))" ..
  note ep = getEnpassant_moveBits [where self = b and move = m and src = i and dest = dst
      and promo = "movePromo m", OF piece(7,8) movePromo_nonneg]
  have da: "isDoubleAdvance b m \<longleftrightarrow> pieceType (getPiece b i) = PAWN \<and> \<bar>i - dst\<bar> = 16"
    using piece(4,10) unfolding isDoubleAdvance_def piece(5,6) Let_def
    by (auto split: if_splits)
  have v: "getEnpassant (moveBits b m i dst (movePromo m)) = (i + dst) div 2"
    if "isDoubleAdvance b m"
  proof -
    from that have "pieceType (getPiece b i) = PAWN \<and> \<bar>i - dst\<bar> = 16"
      using da by simp
    then have e2: "getEnpassant (moveBits b m i dst (movePromo m))
        = (if whiteToMove b \<noteq> 0 then 40 else 16) OR (i AND 7)"
      unfolding ep by simp
    from that have g: "if whiteToMove b \<noteq> 0 then i div 8 = 6 \<and> dst = i - 16
        else i div 8 = 1 \<and> dst = i + 16"
      by (simp add: isDoubleAdvance_def piece(5,6) Let_def)
    show ?thesis
    proof (cases "whiteToMove b \<noteq> 0")
      case True
      with g have "i div 8 = 6" "dst = i - 16" by simp_all
      with True show ?thesis unfolding e2 by (simp add: ep_square_white)
    next
      case False
      with g have "i div 8 = 1" "dst = i + 16" by simp_all
      with False show ?thesis unfolding e2 by (simp add: ep_square_black)
    qed
  qed
  have "getEnpassant (moveBits b m i dst (movePromo m)) \<noteq> 0 \<longleftrightarrow> isDoubleAdvance b m"
    unfolding ep da using ep_square_nonzero [of "whiteToMove b \<noteq> 0" i] by auto
  with mk v show ?thesis unfolding piece(5,6) by blast
next
  case castle
  from castle(3) obtain out where
    mk: "makeMove b (MoveInt m) = Inr (out, moveBits b m (moveSrc m) (moveDest m) (movePromo m))" ..
  from moveDest_range [of m] have r: "0 \<le> moveDest m" "moveDest m \<le> 63" by auto
  note ep = getEnpassant_moveBits [where self = b and move = m and src = "moveSrc m"
      and dest = "moveDest m" and promo = "movePromo m", OF r movePromo_nonneg]
  from castle(2) have "\<not> isDoubleAdvance b m"
    unfolding isDoubleAdvance_def Let_def by (auto split: if_splits)
  moreover from castle(2) have "getEnpassant (moveBits b m (moveSrc m) (moveDest m) (movePromo m)) = 0"
    unfolding ep by simp
  ultimately show ?thesis using mk by blast
qed

text \<open>
  C8. For every move of the list \<open>computeLegalMoves\<close> returns, applying it succeeds
  and the successor has an en-passant target exactly when the move is a pawn
  double-advance; the target is then the square the pawn passed over. For any applied
  move with its squares on the board, legal or not, the successor has a target exactly
  when the piece on the source square is a pawn and the move spans 16 squares (two rows
  on one file). The target of the successor is therefore the one this move set: one that
  the position held before is gone after the next move.
\<close>

theorem en_passant_target_iff_double_advance:
  assumes "computeLegalMoves b = Inr ms" "m \<in> set ms"
  shows "(\<exists>out b'. makeMove b (MoveInt m) = Inr (out, b') \<and>
            (getEnpassant b' \<noteq> 0 \<longleftrightarrow> isDoubleAdvance b m) \<and>
            (isDoubleAdvance b m \<longrightarrow> getEnpassant b' = (moveSrc m + moveDest m) div 2)) \<and>
         (makeMove b0 mv = Inr (out0, b1) \<and> onBoard mv \<and>
          decodeMove mv = Inr (move, src, dest, promo) \<longrightarrow>
            (getEnpassant b1 \<noteq> 0 \<longleftrightarrow>
               pieceType (getPiece b0 src) = PAWN \<and> \<bar>src - dest\<bar> = 16))"
  using legal_move_enpassant [OF assms] makeMove_enpassant [of b0 mv out0 b1 move src dest promo]
  by blast

theorem en_passant_target_iff_double_advance_witness:
  "createFromFen ''k7/p7/7K/8/8/8/8/8 b - - 0 1'' = Inr 69324642199981295398645923846 \<and>
   computeLegalMoves 69324642199981295398645923846 = Inr [24640, 25152, 5128, 5640] \<and>
   5640 \<in> set [24640, 25152, 5128, 5640 :: int] \<and>
   isDoubleAdvance 69324642199981295398645923846 5640 \<and>
   (\<exists>out b'. makeMove 69324642199981295398645923846 (MoveInt 5640) = Inr (out, b') \<and>
      getEnpassant b' = 16)"
proof -
  have e: "createFromFen ''k7/p7/7K/8/8/8/8/8 b - - 0 1'' = Inr 69324642199981295398645923846 \<and>
      isDoubleAdvance 69324642199981295398645923846 5640 \<and>
      (moveSrc 5640 + moveDest 5640) div 2 = 16"
    by code_simp
  have m: "5640 \<in> set [24640, 25152, 5128, 5640 :: int]" by simp
  from en_passant_target_iff_double_advance [OF legal_moves_pawn_position m, THEN conjunct1] e
  show ?thesis
    using legal_moves_pawn_position by auto
qed

text \<open>
  C10. Every move of the list \<open>computeLegalMoves\<close> returns that does not carry the
  CASTLE flag has a source square holding a piece of the side to move: the square is
  not empty and its piece is not an opponent's.
\<close>

theorem legal_move_source_is_own_piece:
  assumes "computeLegalMoves b = Inr ms" "m \<in> set ms" "\<not> castleFlag m"
  shows "getPiece b (moveSrc m) \<noteq> 0 \<and> \<not> isOpponentPiece b (getPiece b (moveSrc m))"
  using assms(1,2)
proof (cases rule: legal_move_cases)
  case (piece i dst)
  then show ?thesis by simp
next
  case castle
  with assms(3) show ?thesis by simp
qed

theorem legal_move_source_is_own_piece_witness:
  "computeLegalMoves 69324642199981295398645923846 = Inr [24640, 25152, 5128, 5640] \<and>
   24640 \<in> set [24640, 25152, 5128, 5640 :: int] \<and> \<not> castleFlag 24640 \<and>
   moveSrc 24640 = 0 \<and> getPiece 69324642199981295398645923846 0 = KING \<and>
   whiteToMove 69324642199981295398645923846 = 0 \<and>
   getPiece 69324642199981295398645923846 (moveSrc 24640) \<noteq> 0 \<and>
   \<not> isOpponentPiece 69324642199981295398645923846
        (getPiece 69324642199981295398645923846 (moveSrc 24640))"
proof -
  have e: "\<not> castleFlag 24640 \<and> moveSrc 24640 = 0 \<and>
      getPiece 69324642199981295398645923846 0 = KING \<and>
      whiteToMove 69324642199981295398645923846 = 0"
    by code_simp
  have m: "24640 \<in> set [24640, 25152, 5128, 5640 :: int]" by simp
  from e have nc: "\<not> castleFlag 24640" by simp
  from legal_move_source_is_own_piece [OF legal_moves_pawn_position m nc] e
  show ?thesis
    using legal_moves_pawn_position by simp
qed

lemma legal_moves_promotion_position:
  "computeLegalMoves 115792089237316195423570985008687907853269984683387679696221548375315780206596
   = Inr [20320265, 20058121, 19795977, 19533833, 8406479, 8405775, 1314889, 1052745,
      790601, 528457, 16847, 18383, 18895, 19407, 19919, 20431, 17295, 17231, 17103,
      17039, 25689, 25753, 26265, 26713, 26777]"
  by code_simp

text \<open>
  C5. The specification: the list of legal moves has every check-giving move before every
  move that does not give check, and is otherwise in generation order. The sort key of
  \<open>computeLegalMoves\<close> is the whole meta field, in which PROMOTION (8) outranks CHECK (4).
  In the position below the four capture-promotions b7xa8, which do not give check, come
  before the two checks of the rook.
\<close>

theorem check_moves_first_counterexample:
  "createFromFen ''r7/1P5R/4k3/1K6/8/8/8/8 w - - 0 1''
     = Inr 115792089237316195423570985008687907853269984683387679696221548375315780206596 \<and>
   computeLegalMoves 115792089237316195423570985008687907853269984683387679696221548375315780206596
     = Inr [20320265, 20058121, 19795977, 19533833, 8406479, 8405775, 1314889, 1052745,
      790601, 528457, 16847, 18383, 18895, 19407, 19919, 20431, 17295, 17231, 17103,
      17039, 25689, 25753, 26265, 26713, 26777] \<and>
   map checkFlag [20320265, 20058121, 19795977, 19533833, 8406479, 8405775]
     = [False, False, False, False, True, True]"
proof -
  have "createFromFen ''r7/1P5R/4k3/1K6/8/8/8/8 w - - 0 1''
     = Inr 115792089237316195423570985008687907853269984683387679696221548375315780206596 \<and>
   map checkFlag [20320265, 20058121, 19795977, 19533833, 8406479, 8405775]
     = [False, False, False, False, True, True]"
    by code_simp
  with legal_moves_promotion_position show ?thesis by simp
qed

text \<open>
  C5, what holds. The list \<open>computeLegalMoves\<close> returns is the list of the moves that pass
  the legality filter, sorted by descending value of the whole meta field and stable:
  the moves with one meta value keep their generation order. So a check-giving move
  comes before every move without the CHECK flag that has the same PROMOTION flag; a
  move with the PROMOTION flag comes before the moves without it, check-giving or not.
\<close>

theorem legal_moves_sorted_by_meta:
  assumes "computeLegalMoves b = Inr ms"
  shows "\<exists>fm. filteredMoves b = Inr fm \<and>
           sorted (map (\<lambda>m. - moveMeta m) ms) \<and>
           (\<forall>k. filter (\<lambda>m. moveMeta m = k) ms = filter (\<lambda>m. moveMeta m = k) fm) \<and>
           (\<forall>i j. i < j \<and> j < length ms \<and> promotionFlag (ms ! i) = promotionFlag (ms ! j) \<and>
                  checkFlag (ms ! j) \<longrightarrow> checkFlag (ms ! i))"
proof -
  from assms obtain fm where fm: "filteredMoves b = Inr fm"
    and ms: "ms = sort_key (\<lambda>m. - moveMeta m) fm"
    unfolding computeLegalMoves_def by (auto simp: ebind_eq_Inr)
  have s: "sorted (map (\<lambda>m. - moveMeta m) ms)"
    unfolding ms by (rule sorted_sort_key)
  have st: "filter (\<lambda>m. moveMeta m = k) ms = filter (\<lambda>m. moveMeta m = k) fm" for k
    using sort_key_stable [of "\<lambda>m. - moveMeta m" "- k" fm] unfolding ms by simp
  have c: "checkFlag (ms ! i)"
    if "i < j" "j < length ms" "promotionFlag (ms ! i) = promotionFlag (ms ! j)" "checkFlag (ms ! j)"
    for i j
  proof -
    from s that(1,2) have "- moveMeta (ms ! i) \<le> - moveMeta (ms ! j)"
      by (simp add: sorted_iff_nth_mono)
    then have "moveMeta (ms ! j) \<le> moveMeta (ms ! i)" by simp
    then show ?thesis using that(3,4) by (rule check_first_within_promotion_class)
  qed
  from fm s st c show ?thesis by blast
qed

theorem legal_moves_sorted_by_meta_witness:
  "computeLegalMoves 115792089237316195423570985008687907853269984683387679696221548375315780206596
     = Inr [20320265, 20058121, 19795977, 19533833, 8406479, 8405775, 1314889, 1052745,
      790601, 528457, 16847, 18383, 18895, 19407, 19919, 20431, 17295, 17231, 17103,
      17039, 25689, 25753, 26265, 26713, 26777] \<and>
   (\<exists>fm. filteredMoves 115792089237316195423570985008687907853269984683387679696221548375315780206596 = Inr fm \<and>
      sorted (map (\<lambda>m. - moveMeta m) [20320265, 20058121, 19795977, 19533833, 8406479, 8405775, 1314889, 1052745,
      790601, 528457, 16847, 18383, 18895, 19407, 19919, 20431, 17295, 17231, 17103,
      17039, 25689, 25753, 26265, 26713, 26777]) \<and>
      (\<forall>k. filter (\<lambda>m. moveMeta m = k) [20320265, 20058121, 19795977, 19533833, 8406479, 8405775, 1314889, 1052745,
      790601, 528457, 16847, 18383, 18895, 19407, 19919, 20431, 17295, 17231, 17103,
      17039, 25689, 25753, 26265, 26713, 26777] = filter (\<lambda>m. moveMeta m = k) fm))"
  using legal_moves_sorted_by_meta [OF legal_moves_promotion_position]
    legal_moves_promotion_position
  by blast

text \<open>
  C9. The specification: parsing move text against a position fails with UnknownMoveError
  exactly when no legal move matches the text, and a failure prints nothing.
  \<open>makeMove\<close> never consults the legal moves and has no such error: by its own comment it
  trusts the GUI to send legal moves. Below the legal moves of the position are a8b8,
  a8b7, a7a6 and a7a5; the text c5c4 names an empty source square, and \<open>makeMove\<close> prints
  the board and "Illegal move", raises nothing and returns a successor position.
\<close>

theorem unmatched_text_is_applied_counterexample:
  "createFromFen ''k7/p7/7K/8/8/8/8/8 b - - 0 1'' = Inr 69324642199981295398645923846 \<and>
   computeLegalMoves 69324642199981295398645923846 = Inr [24640, 25152, 5128, 5640] \<and>
   mapE moveStr [24640, 25152, 5128, 5640] = Inr [''a8b8'', ''a8b7'', ''a7a6'', ''a7a5''] \<and>
   getPiece 69324642199981295398645923846 26 = EMPTY \<and>
   makeMove 69324642199981295398645923846 (MoveStr ''c5c4'')
     = Inr ([PrettyPrintVerbose 69324642199981295398645923846, PrintIllegalMove 2202],
            115792089237316195423570985008687907853269984665709888681657565303311775563782)"
proof -
  have "createFromFen ''k7/p7/7K/8/8/8/8/8 b - - 0 1'' = Inr 69324642199981295398645923846 \<and>
   mapE moveStr [24640, 25152, 5128, 5640] = Inr [''a8b8'', ''a8b7'', ''a7a6'', ''a7a5''] \<and>
   getPiece 69324642199981295398645923846 26 = EMPTY \<and>
   makeMove 69324642199981295398645923846 (MoveStr ''c5c4'')
     = Inr ([PrettyPrintVerbose 69324642199981295398645923846, PrintIllegalMove 2202],
            115792089237316195423570985008687907853269984665709888681657565303311775563782)"
    by code_simp
  with legal_moves_pawn_position show ?thesis by simp
qed

text \<open>
  C9, what holds. Applying well-formed move text to a position whose board can be printed
  (no nibble of kind 7) never fails and never looks at the legal moves: it decodes the
  two squares, prints the board and "Illegal move" when the source square is empty or
  holds an opponent's piece and nothing otherwise, and in both cases returns the
  successor position. The only errors \<open>makeMove\<close> can raise, on any argument, are
  Python's IndexError, ValueError and KeyError; there is no UnknownMoveError.
\<close>

theorem makeMove_text_applies_without_legality_check:
  assumes "wellFormedMoveText t" "prettyPrintVerbose b = Inr v"
  shows "(\<exists>move src dest promo out.
            decodeMove (MoveStr t) = Inr (move, src, dest, promo) \<and>
            0 \<le> src \<and> src \<le> 63 \<and> 0 \<le> dest \<and> dest \<le> 63 \<and>
            makeMove b (MoveStr t) = Inr (out, moveBits b move src dest promo) \<and>
            out = (if getPiece b src = 0 \<or> isOpponentPiece b (getPiece b src)
                   then [PrettyPrintVerbose b, PrintIllegalMove move] else [])) \<and>
         (makeMove b' mv = Inl e \<longrightarrow> e = IndexError \<or> e = ValueError \<or> e = KeyError)"
proof -
  from decodeMove_wellFormed [OF assms(1)] obtain move src dest promo where
    d: "decodeMove (MoveStr t) = Inr (move, src, dest, promo)"
    and r: "0 \<le> src" "src \<le> 63" "0 \<le> dest" "dest \<le> 63"
    by blast
  from assms(2) have v: "prettyPrintVerbose b = Inr [PrettyPrintVerbose b]"
    unfolding prettyPrintVerbose_def by (auto split: if_splits)
  have "makeMove b (MoveStr t) =
      Inr (if getPiece b src = 0 \<or> isOpponentPiece b (getPiece b src)
           then [PrettyPrintVerbose b, PrintIllegalMove move] else [],
           moveBits b move src dest promo)"
    unfolding makeMove_def d using r v by (simp add: Let_def)
  with d r makeMove_errors [of b' mv e] show ?thesis by blast
qed

theorem makeMove_text_applies_without_legality_check_witness:
  "wellFormedMoveText ''c5c4'' \<and>
   prettyPrintVerbose 69324642199981295398645923846 = Inr [PrettyPrintVerbose 69324642199981295398645923846] \<and>
   (\<exists>move src dest promo out.
      decodeMove (MoveStr ''c5c4'') = Inr (move, src, dest, promo) \<and>
      0 \<le> src \<and> src \<le> 63 \<and> 0 \<le> dest \<and> dest \<le> 63 \<and>
      makeMove 69324642199981295398645923846 (MoveStr ''c5c4'') = Inr (out, moveBits 69324642199981295398645923846 move src dest promo) \<and>
      out = (if getPiece 69324642199981295398645923846 src = 0 \<or> isOpponentPiece 69324642199981295398645923846 (getPiece 69324642199981295398645923846 src)
             then [PrettyPrintVerbose 69324642199981295398645923846, PrintIllegalMove move] else []))"
proof -
  have w: "wellFormedMoveText ''c5c4''" by code_simp
  have p: "prettyPrintVerbose 69324642199981295398645923846 = Inr [PrettyPrintVerbose 69324642199981295398645923846]" by code_simp
  from makeMove_text_applies_without_legality_check [OF w p] w p show ?thesis by blast
qed

end
